theory Spec2Isabelle
  imports Complex_Main
begin

section \<open>FanPico main loop (src/src/fanpico.c)\<close>

text \<open>
  The embedding follows \<^verbatim>\<open>fanpico.c\<close> function by function. Conventions:
  \<^item> a C \<^verbatim>\<open>float\<close> or \<^verbatim>\<open>double\<close> is an exact \<open>real\<close>: rounding error, infinities and NaN
    are outside the model;
  \<^item> \<^verbatim>\<open>absolute_time_t\<close> is the number of microseconds since boot, a \<open>nat\<close> (the
    64-bit counter does not wrap in any run that matters);
  \<^item> bytes are \<open>char\<close>, the receive buffer \<^verbatim>\<open>input_buf\<close> is a \<open>string\<close> of
    \<^verbatim>\<open>sizeof(input_buf)\<close> characters, and the line handed to \<^verbatim>\<open>process_command\<close> is
    the NUL-terminated string that starts at \<^verbatim>\<open>input_buf[0]\<close>;
  \<^item> every call that leaves the file is an \<open>event\<close>; a function returns the list of its
    events in program order next to the state it leaves;
  \<^item> a write outside \<^verbatim>\<open>input_buf\<close> is undefined behaviour in C: the model stops there
    with a \<open>fault\<close>;
  \<^item> macros and declarations of \<^verbatim>\<open>fanpico.h\<close> (not part of the sources at hand) are
    fields of the record \<open>build\<close>; functions defined in other files are either events,
    inputs of an iteration, or fields of the record \<open>extern\<close>;
  \<^item> \<^verbatim>\<open>core1_main\<close> runs on the second core and shares no variable of this file with
    \<^verbatim>\<open>main\<close>: it is not part of the model.
\<close>

subsection \<open>Data\<close>

record fanpico_state =
  mbfan_duty :: "real list"
  mbfan_freq :: "real list"
  fan_duty :: "real list"
  fan_freq :: "real list"
  temp :: "real list"

record fanpico_config =
  led_mode :: int
  local_echo :: bool

record build =
  FAN_COUNT :: nat
  MBFAN_COUNT :: nat
  SENSOR_COUNT :: nat
  FAN_MAX_COUNT :: nat
  MBFAN_MAX_COUNT :: nat
  SENSOR_MAX_COUNT :: nat
  WATCHDOG_ENABLED :: bool
  WATCHDOG_REBOOT_DELAY :: nat
  TTL_SERIAL :: bool
  LIB_PICO_CYW43_ARCH :: bool
  LED_PIN :: int
  SENSOR1_READ_PIN :: int
  SENSOR2_READ_PIN :: int

datatype log_level = LOG_DEBUG | LOG_INFO | LOG_NOTICE

datatype timer =
  T_poll_pwm | T_poll_tacho | T_led | T_temp | T_set_outputs | T_network | T_display

datatype event =
    Call string
  | SleepMs nat
  | Printf string
  | LogMsg log_level string "real list"
  | TimePassed timer nat
  | NetworkPoll
  | GpioPut int nat
  | Cyw43ArchGpioPut nat
  | DisplayStatus
  | GetPwmDutyCycles
  | GetTemperature nat
  | UpdateTachoInputFreq
  | UpdateOutputs
  | SetPwmDutyCycle nat real
  | SetTachoOutputFreq nat real
  | GetcharTimeoutUs nat
  | ProcessCommand string
  | WatchdogEnable nat
  | WatchdogUpdate

datatype fault = OutOfBounds nat

text \<open>
  An event is a call with the arguments that matter: \<open>Call\<close> for the calls of the
  hardware bring-up, by name; \<open>Printf\<close> and \<open>LogMsg\<close> with the format string (the console
  echo of one byte with that byte) and, for \<open>LogMsg\<close>, the numeric arguments;
  \<open>TimePassed\<close> with the timer and the interval in ms; \<open>UpdateOutputs\<close> for the call of
  \<^verbatim>\<open>update_outputs\<close>; \<open>OutOfBounds i\<close> is a store at index \<open>i\<close> outside \<^verbatim>\<open>input_buf\<close>.
\<close>

text \<open>
  Functions of other files whose result the loop uses. \<open>time_passed x t ms now\<close> is
  \<^verbatim>\<open>time_passed(&t, ms)\<close> when the clock it reads shows \<open>now\<close>: it returns the result and
  the new value of \<open>t\<close>. The two \<^verbatim>\<open>calculate_\<close> functions read the state and the
  configuration.
\<close>

record extern =
  time_passed :: "nat \<Rightarrow> nat \<Rightarrow> nat \<Rightarrow> bool \<times> nat"
  calculate_pwm_duty :: "fanpico_state \<Rightarrow> fanpico_config \<Rightarrow> nat \<Rightarrow> real"
  calculate_tacho_freq :: "fanpico_state \<Rightarrow> fanpico_config \<Rightarrow> nat \<Rightarrow> real"

text \<open>The local variables of \<^verbatim>\<open>main\<close> that live across iterations, and the state.\<close>

record main_state =
  st :: fanpico_state
  t_poll_pwm :: nat
  t_poll_tacho :: nat
  t_led :: nat
  t_temp :: nat
  t_set_outputs :: nat
  t_network :: nat
  t_last :: nat
  t_display :: nat
  led_state :: nat
  max_delta :: int
  input_buf :: string
  i_ptr :: nat

text \<open>
  What the environment supplies during one iteration of the loop: the clock at line 245
  and at each \<^verbatim>\<open>time_passed\<close> call, the configuration \<^verbatim>\<open>cfg\<close> points to, the array
  \<^verbatim>\<open>mbfan_pwm_duty\<close> as \<^verbatim>\<open>get_pwm_duty_cycles\<close> leaves it, the results of
  \<^verbatim>\<open>get_temperature\<close>, the frequencies \<^verbatim>\<open>update_tacho_input_freq\<close> stores, and the bytes
  \<^verbatim>\<open>getchar_timeout_us\<close> returns before it reports a timeout (each call returns a byte,
  0 to 255, or \<^verbatim>\<open>PICO_ERROR_TIMEOUT\<close>). \<^verbatim>\<open>process_command\<close>, \<^verbatim>\<open>display_status\<close> and
  \<^verbatim>\<open>network_poll\<close> are events: what they do to the configuration shows as the value of
  \<open>cfg\<close> in a later iteration, and they are taken not to write the state.
\<close>

record iter_in =
  t_now :: nat
  clk :: "timer \<Rightarrow> nat"
  cfg :: fanpico_config
  mbfan_pwm_duty :: "real list"
  get_temperature :: "nat \<Rightarrow> real"
  tacho_freq :: "real list"
  rx :: string

subsection \<open>Helpers defined outside the file\<close>

text \<open>
  Modelled from the spec: \<^verbatim>\<open>check_for_change\<close> is declared in \<^verbatim>\<open>fanpico.h\<close> and defined
  in another file. The spec gives it as \<open>changed(prev, new, threshold) = |new - prev| \<ge>
  threshold\<close>, inclusive at the boundary.
\<close>

definition check_for_change :: "real \<Rightarrow> real \<Rightarrow> real \<Rightarrow> bool" where
  "check_for_change oldval newval threshold = (threshold \<le> \<bar>newval - oldval\<bar>)"

text \<open>
  Modelled from the spec: \<^verbatim>\<open>time_passed\<close> is defined in another file. The spec: a task
  fires when the time elapsed since its last fire is at least its interval (in ms), and
  its last-fire time is then reset to the current time. The loop itself takes
  \<^verbatim>\<open>time_passed\<close> from \<open>extern\<close>; this definition is the instance used in examples.
\<close>

definition time_passed_spec :: "nat \<Rightarrow> nat \<Rightarrow> nat \<Rightarrow> bool \<times> nat" where
  "time_passed_spec t ms now = (if t + 1000 * ms \<le> now then (True, now) else (False, t))"

text \<open>\<^verbatim>\<open>roundf\<close> of the C library: to the nearest integer, halfway cases away from zero.\<close>

definition roundf :: "real \<Rightarrow> real" where
  "roundf x = (if 0 \<le> x then of_int \<lfloor>x + 1 / 2\<rfloor> else - of_int \<lfloor>- x + 1 / 2\<rfloor>)"

subsection \<open>\<^verbatim>\<open>clear_state\<close>\<close>

definition clear_state :: "build \<Rightarrow> fanpico_state \<Rightarrow> fanpico_state" where
  "clear_state b s =
     (let s1 = fold (\<lambda>i s. s\<lparr>mbfan_duty := (mbfan_duty s)[i := 0],
                              mbfan_freq := (mbfan_freq s)[i := 0]\<rparr>) [0..<MBFAN_MAX_COUNT b] s;
          s2 = fold (\<lambda>i s. s\<lparr>fan_duty := (fan_duty s)[i := 0],
                              fan_freq := (fan_freq s)[i := 0]\<rparr>) [0..<FAN_MAX_COUNT b] s1
      in fold (\<lambda>i s. s\<lparr>temp := (temp s)[i := 0]\<rparr>) [0..<SENSOR_MAX_COUNT b] s2)"

text \<open>
  \<^verbatim>\<open>system_state\<close> is a static object, zero before \<^verbatim>\<open>main\<close> runs. Its arrays are
  declared in \<^verbatim>\<open>fanpico.h\<close>; \<^verbatim>\<open>clear_state\<close> runs over \<^verbatim>\<open>MBFAN_MAX_COUNT\<close>,
  \<^verbatim>\<open>FAN_MAX_COUNT\<close> and \<^verbatim>\<open>SENSOR_MAX_COUNT\<close> elements, which are taken as their lengths.
\<close>

definition system_state :: "build \<Rightarrow> fanpico_state" where
  "system_state b =
     \<lparr>mbfan_duty = replicate (MBFAN_MAX_COUNT b) 0,
      mbfan_freq = replicate (MBFAN_MAX_COUNT b) 0,
      fan_duty = replicate (FAN_MAX_COUNT b) 0,
      fan_freq = replicate (FAN_MAX_COUNT b) 0,
      temp = replicate (SENSOR_MAX_COUNT b) 0\<rparr>"

subsection \<open>\<^verbatim>\<open>update_outputs\<close>\<close>

text \<open>One round of the first loop (fan PWM signals), for channel \<open>i\<close>.\<close>

definition update_fan ::
  "extern \<Rightarrow> fanpico_config \<Rightarrow> nat \<Rightarrow> fanpico_state \<times> event list \<Rightarrow> fanpico_state \<times> event list"
where
  "update_fan x config i = (\<lambda>(state, evs).
     let new = calculate_pwm_duty x state config i in
     if check_for_change (fan_duty state ! i) new 0.1 then
       (state\<lparr>fan_duty := (fan_duty state)[i := new]\<rparr>,
        evs @ [LogMsg LOG_INFO ''fan%d: Set output PWM %.1f%% --> %.1f%%''
                 [real (i + 1), fan_duty state ! i, new],
               SetPwmDutyCycle i new])
     else (state, evs))"

text \<open>One round of the second loop (mb tacho signals), for channel \<open>i\<close>.\<close>

definition update_mbfan ::
  "extern \<Rightarrow> fanpico_config \<Rightarrow> nat \<Rightarrow> fanpico_state \<times> event list \<Rightarrow> fanpico_state \<times> event list"
where
  "update_mbfan x config i = (\<lambda>(state, evs).
     let new = calculate_tacho_freq x state config i in
     if check_for_change (mbfan_freq state ! i) new 0.1 then
       (state\<lparr>mbfan_freq := (mbfan_freq state)[i := new]\<rparr>,
        evs @ [LogMsg LOG_INFO ''mbfan%d: Set output Tacho %.2fHz --> %.2fHz''
                 [real (i + 1), mbfan_freq state ! i, new],
               SetTachoOutputFreq i new])
     else (state, evs))"

definition update_fans ::
  "extern \<Rightarrow> fanpico_config \<Rightarrow> nat \<Rightarrow> fanpico_state \<times> event list \<Rightarrow> fanpico_state \<times> event list"
where
  "update_fans x config n = fold (update_fan x config) [0..<n]"

definition update_mbfans ::
  "extern \<Rightarrow> fanpico_config \<Rightarrow> nat \<Rightarrow> fanpico_state \<times> event list \<Rightarrow> fanpico_state \<times> event list"
where
  "update_mbfans x config n = fold (update_mbfan x config) [0..<n]"

definition update_outputs ::
  "build \<Rightarrow> extern \<Rightarrow> fanpico_config \<Rightarrow> fanpico_state \<Rightarrow> fanpico_state \<times> event list"
where
  "update_outputs b x config state =
     update_mbfans x config (MBFAN_COUNT b) (update_fans x config (FAN_COUNT b) (state, []))"

subsection \<open>\<^verbatim>\<open>setup\<close> and the start of \<^verbatim>\<open>main\<close>\<close>

text \<open>
  \<^verbatim>\<open>setup\<close> is a reserved word of the theory language: the function is \<open>setup_board\<close>.
  The flag \<^verbatim>\<open>rebooted_by_watchdog\<close> that it sets is not read in this file.
\<close>

text \<open>
  What the environment supplies at boot: how many times \<^verbatim>\<open>stdio_usb_connected\<close> answers
  no before it answers yes, the results of \<^verbatim>\<open>watchdog_enable_caused_reboot\<close> and
  \<^verbatim>\<open>get_debug_level\<close>, the clock at line 240, and the bytes that happen to lie in the
  uninitialised \<^verbatim>\<open>input_buf\<close>.
\<close>

record boot_in =
  usb_not_connected :: nat
  watchdog_caused_reboot :: bool
  debug_level :: int
  boot_time :: nat
  stack_bytes :: "nat \<Rightarrow> char"

definition sizeof_input_buf :: nat where
  "sizeof_input_buf = 1024"

text \<open>
  The wait for the USB console, \<^verbatim>\<open>while (i++ < 10)\<close>: the first argument is the number of
  rounds left (10 at the start), the second the number of negative answers still to come.
\<close>

fun usb_wait :: "nat \<Rightarrow> nat \<Rightarrow> event list" where
  "usb_wait 0 n = []"
| "usb_wait (Suc k) n =
     Call ''stdio_usb_connected'' # (if n = 0 then [] else SleepMs 250 # usb_wait k (n - 1))"

definition setup_board :: "build \<Rightarrow> boot_in \<Rightarrow> event list" where
  "setup_board b bi =
     [Call ''rtc_init'']
     @ (if TTL_SERIAL b then [Call ''stdio_uart_init_full''] else [])
     @ [Call ''stdio_usb_init'']
     @ usb_wait 10 (usb_not_connected bi)
     @ [Printf [CHR 0x0A, CHR 0x0A, CHR 0x0A], Call ''watchdog_enable_caused_reboot'']
     @ (if watchdog_caused_reboot bi
        then [Printf (''[Rebooted by watchdog]'' @ [CHR 0x0A, CHR 0x0A])] else [])
     @ [Call ''cmd_version'',
        Printf (''Hardware Model: FANPICO-%s'' @ [CHR 0x0A]),
        Printf (''         Board: %s'' @ [CHR 0x0A]),
        Call ''rp2040_model_str'', Call ''clock_get_hz'',
        Printf (''           MCU: %s @ %0.0fMHz'' @ [CHR 0x0A]),
        Call ''pico_serial_str'',
        Printf ('' Serial Number: %s'' @ [CHR 0x0A, CHR 0x0A]),
        Call ''read_config'', Call ''display_init'', Call ''network_init'',
        LogMsg LOG_NOTICE ''Initialize ADC...'' [],
        Call ''adc_init'', Call ''adc_set_temp_sensor_enabled'']
     @ (if 0 < SENSOR1_READ_PIN b then [Call ''adc_gpio_init''] else [])
     @ (if 0 < SENSOR2_READ_PIN b then [Call ''adc_gpio_init''] else [])
     @ [LogMsg LOG_NOTICE ''Initialize GPIO...'' []]
     @ (if 0 < LED_PIN b
        then [Call ''gpio_init'', Call ''gpio_set_dir'', GpioPut (LED_PIN b) 0] else [])
     @ (if LIB_PICO_CYW43_ARCH b then [Cyw43ArchGpioPut 0] else [])
     @ [Call ''setup_pwm_outputs'', Call ''setup_pwm_inputs'']
     @ map (\<lambda>i. SetPwmDutyCycle i 0) [0..<FAN_COUNT b]
     @ [Call ''setup_tacho_outputs'', Call ''setup_tacho_inputs'',
        LogMsg LOG_NOTICE ''System initialization complete.'' []]"

definition print_mallinfo_if_debug :: "boot_in \<Rightarrow> event list" where
  "print_mallinfo_if_debug bi =
     Call ''get_debug_level'' # (if 2 \<le> debug_level bi then [Call ''print_mallinfo''] else [])"

text \<open>Lines 209 to 241 of \<^verbatim>\<open>main\<close>: everything before \<^verbatim>\<open>while (1)\<close>.\<close>

definition boot :: "build \<Rightarrow> boot_in \<Rightarrow> event list \<times> main_state" where
  "boot b bi =
     ([Call ''set_binary_info'']
      @ print_mallinfo_if_debug bi
      @ setup_board b bi
      @ print_mallinfo_if_debug bi
      @ [Call ''multicore_launch_core1'']
      @ (if WATCHDOG_ENABLED b then [WatchdogEnable (WATCHDOG_REBOOT_DELAY b)] else []),
      \<lparr>st = clear_state b (system_state b),
       t_poll_pwm = 0, t_poll_tacho = 0, t_led = 0, t_temp = 0, t_set_outputs = 0,
       t_network = 0, t_last = boot_time bi, t_display = boot_time bi,
       led_state = 0, max_delta = 0,
       input_buf = map (stack_bytes bi) [0..<sizeof_input_buf], i_ptr = 0\<rparr>)"

subsection \<open>The tasks of the loop, in the order of the source\<close>

text \<open>Lines 244 to 252.\<close>

definition loop_head :: "iter_in \<Rightarrow> main_state \<Rightarrow> main_state \<times> event list" where
  "loop_head e s =
     (let delta = int (t_now e) - int (t_last s);
          s' = s\<lparr>t_last := t_now e\<rparr>
      in if max_delta s < delta
         then (s'\<lparr>max_delta := delta\<rparr>,
               [LogMsg LOG_DEBUG ''core0: max_loop_time=%lld'' [real_of_int delta]])
         else (s', []))"

text \<open>Lines 254 to 256.\<close>

definition task_network :: "extern \<Rightarrow> iter_in \<Rightarrow> main_state \<Rightarrow> main_state \<times> event list" where
  "task_network x e s =
     (let (fired, t') = time_passed x (t_network s) 1 (clk e T_network);
          s1 = s\<lparr>t_network := t'\<rparr>
      in (s1, TimePassed T_network 1 # (if fired then [NetworkPoll] else [])))"

text \<open>Lines 258 to 276.\<close>

definition next_led_state :: "fanpico_config \<Rightarrow> nat \<Rightarrow> nat" where
  "next_led_state config l =
     (if led_mode config = 0 then (if 0 < l then 0 else 1)
      else if led_mode config = 1 then 1
      else 0)"

definition task_led ::
  "build \<Rightarrow> extern \<Rightarrow> iter_in \<Rightarrow> main_state \<Rightarrow> main_state \<times> event list"
where
  "task_led b x e s =
     (let (fired, t') = time_passed x (t_led s) 1000 (clk e T_led);
          s1 = s\<lparr>t_led := t'\<rparr>
      in if fired
         then (let l = next_led_state (cfg e) (led_state s1)
               in (s1\<lparr>led_state := l\<rparr>,
                   TimePassed T_led 1000
                   # (if 0 < LED_PIN b then [GpioPut (LED_PIN b) l] else [])
                   @ (if LIB_PICO_CYW43_ARCH b then [Cyw43ArchGpioPut l] else [])))
         else (s1, [TimePassed T_led 1000]))"

text \<open>Lines 278 to 282.\<close>

definition task_display :: "extern \<Rightarrow> iter_in \<Rightarrow> main_state \<Rightarrow> main_state \<times> event list" where
  "task_display x e s =
     (let (fired, t') = time_passed x (t_display s) 2000 (clk e T_display);
          s1 = s\<lparr>t_display := t'\<rparr>
      in (s1, TimePassed T_display 2000
              # (if fired then [LogMsg LOG_DEBUG ''Update display'' [], DisplayStatus] else [])))"

text \<open>Lines 284 to 303. One round of the loop over the channels, then the task.\<close>

definition poll_pwm_step ::
  "iter_in \<Rightarrow> nat \<Rightarrow> main_state \<times> nat \<times> event list \<Rightarrow> main_state \<times> nat \<times> event list"
where
  "poll_pwm_step e i = (\<lambda>(s, change, evs).
     let new_duty = roundf (mbfan_pwm_duty e ! i) in
     if check_for_change (mbfan_duty (st s) ! i) new_duty 0.5 then
       (s\<lparr>st := (st s)\<lparr>mbfan_duty := (mbfan_duty (st s))[i := new_duty]\<rparr>,
          t_set_outputs := 0\<rparr>,
        change + 1,
        evs @ [LogMsg LOG_INFO ''mbfan%d: duty cycle change %.1f --> %.1f''
                 [real (i + 1), mbfan_duty (st s) ! i, new_duty]])
     else (s, change, evs))"

definition task_poll_pwm ::
  "build \<Rightarrow> extern \<Rightarrow> iter_in \<Rightarrow> main_state \<times> nat \<Rightarrow> main_state \<times> nat \<times> event list"
where
  "task_poll_pwm b x e = (\<lambda>(s, change).
     let (fired, t') = time_passed x (t_poll_pwm s) 1500 (clk e T_poll_pwm);
         s1 = s\<lparr>t_poll_pwm := t'\<rparr>
     in if fired
        then fold (poll_pwm_step e) [0..<MBFAN_COUNT b]
               (s1, change,
                [TimePassed T_poll_pwm 1500, LogMsg LOG_DEBUG ''Read PWM inputs'' [],
                 GetPwmDutyCycles])
        else (s1, change, [TimePassed T_poll_pwm 1500]))"

text \<open>Lines 305 to 322.\<close>

definition temp_step ::
  "iter_in \<Rightarrow> nat \<Rightarrow> main_state \<times> nat \<times> event list \<Rightarrow> main_state \<times> nat \<times> event list"
where
  "temp_step e i = (\<lambda>(s, change, evs).
     let temp' = get_temperature e i in
     if check_for_change (temp (st s) ! i) temp' 0.5 then
       (s\<lparr>st := (st s)\<lparr>temp := (temp (st s))[i := temp']\<rparr>\<rparr>,
        change + 1,
        evs @ [GetTemperature i,
               LogMsg LOG_INFO ''sensor%d: Temperature change %.1fC --> %.1fC''
                 [real (i + 1), temp (st s) ! i, temp']])
     else (s, change, evs @ [GetTemperature i]))"

definition task_temp ::
  "build \<Rightarrow> extern \<Rightarrow> iter_in \<Rightarrow> main_state \<times> nat \<Rightarrow> main_state \<times> nat \<times> event list"
where
  "task_temp b x e = (\<lambda>(s, change).
     let (fired, t') = time_passed x (t_temp s) 10000 (clk e T_temp);
         s1 = s\<lparr>t_temp := t'\<rparr>
     in if fired
        then fold (temp_step e) [0..<SENSOR_COUNT b]
               (s1, change,
                [TimePassed T_temp 10000, LogMsg LOG_DEBUG ''Read temperature sensors'' []])
        else (s1, change, [TimePassed T_temp 10000]))"

text \<open>
  Modelled from the spec: \<^verbatim>\<open>update_tacho_input_freq\<close> is defined in another file; the spec
  says that the scheduler's frequency computation task takes the capture worker's
  samples into the input frequency field of the state. The values it stores are the
  input \<open>tacho_freq\<close>. The task is lines 324 to 328.
\<close>

definition task_poll_tacho :: "extern \<Rightarrow> iter_in \<Rightarrow> main_state \<Rightarrow> main_state \<times> event list" where
  "task_poll_tacho x e s =
     (let (fired, t') = time_passed x (t_poll_tacho s) 2000 (clk e T_poll_tacho);
          s1 = s\<lparr>t_poll_tacho := t'\<rparr>
      in if fired
         then (s1\<lparr>st := (st s1)\<lparr>fan_freq := tacho_freq e\<rparr>\<rparr>,
               [TimePassed T_poll_tacho 2000,
                LogMsg LOG_DEBUG ''Updating tacho input signals.'' [], UpdateTachoInputFreq])
         else (s1, [TimePassed T_poll_tacho 2000]))"

text \<open>
  Lines 330 to 333. \<^verbatim>\<open>||\<close> does not evaluate \<^verbatim>\<open>time_passed\<close> when \<^verbatim>\<open>change\<close> is not zero.
  \<open>UpdateOutputs\<close> marks the call of \<^verbatim>\<open>update_outputs\<close>.
\<close>

definition call_update_outputs ::
  "build \<Rightarrow> extern \<Rightarrow> iter_in \<Rightarrow> main_state \<Rightarrow> main_state \<times> event list"
where
  "call_update_outputs b x e s =
     (let (state, evs) = update_outputs b x (cfg e) (st s)
      in (s\<lparr>st := state\<rparr>,
          [LogMsg LOG_DEBUG ''Updating output signals.'' [], UpdateOutputs] @ evs))"

definition task_set_outputs ::
  "build \<Rightarrow> extern \<Rightarrow> iter_in \<Rightarrow> nat \<Rightarrow> main_state \<Rightarrow> main_state \<times> event list"
where
  "task_set_outputs b x e change s =
     (if change \<noteq> 0 then call_update_outputs b x e s
      else
        (let (fired, t') = time_passed x (t_set_outputs s) 3000 (clk e T_set_outputs);
             s1 = s\<lparr>t_set_outputs := t'\<rparr>
         in if fired
            then (let (s2, evs) = call_update_outputs b x e s1
                  in (s2, TimePassed T_set_outputs 3000 # evs))
            else (s1, [TimePassed T_set_outputs 3000])))"

subsection \<open>The command console, lines 335 to 355\<close>

text \<open>A store into \<^verbatim>\<open>input_buf\<close>: inside the array, or a fault.\<close>

definition buf_write :: "string \<Rightarrow> nat \<Rightarrow> char \<Rightarrow> fault + string" where
  "buf_write buf i c = (if i < length buf then Inr (buf[i := c]) else Inl (OutOfBounds i))"

text \<open>The string \<^verbatim>\<open>process_command\<close> reads: the bytes before the first NUL.\<close>

definition c_str :: "string \<Rightarrow> string" where
  "c_str buf = takeWhile (\<lambda>c. c \<noteq> CHR 0x00) buf"

text \<open>The body of the \<^verbatim>\<open>while\<close> loop for one byte \<open>c\<close> that \<^verbatim>\<open>getchar_timeout_us\<close> returned.\<close>

definition console_byte ::
  "fanpico_config \<Rightarrow> char \<Rightarrow> main_state \<Rightarrow> event list \<times> (fault + main_state)"
where
  "console_byte config c s =
     (if c = CHR 0xFF \<or> c = CHR 0x00 then ([], Inr s)
      else if c = CHR 0x7F \<or> c = CHR 0x08 then
        ((if local_echo config then [Printf [CHR 0x08, CHR 0x20, CHR 0x08]] else []),
         Inr (if 0 < i_ptr s then s\<lparr>i_ptr := i_ptr s - 1\<rparr> else s))
      else if c = CHR 0x0A \<or> c = CHR 0x0D \<or> sizeof_input_buf \<le> i_ptr s then
        (let echo = (if local_echo config then [Printf [CHR 0x0D, CHR 0x0A]] else [])
         in case buf_write (input_buf s) (i_ptr s) (CHR 0x00) of
              Inl f \<Rightarrow> (echo, Inl f)
            | Inr buf \<Rightarrow>
                if 0 < i_ptr s
                then (echo @ [ProcessCommand (c_str buf)],
                      Inr (s\<lparr>input_buf := buf, i_ptr := 0\<rparr>))
                else (echo, Inr (s\<lparr>input_buf := buf\<rparr>)))
      else
        (case buf_write (input_buf s) (i_ptr s) c of
           Inl f \<Rightarrow> ([], Inl f)
         | Inr buf \<Rightarrow>
             ((if local_echo config then [Printf [c]] else []),
              Inr (s\<lparr>input_buf := buf, i_ptr := i_ptr s + 1\<rparr>))))"

text \<open>
  The loop \<^verbatim>\<open>while ((c = getchar_timeout_us(0)) != PICO_ERROR_TIMEOUT)\<close>: \<open>console_feed\<close>
  is the rounds for the bytes received (each starts with the call that returned the
  byte), \<open>console_pump\<close> adds the last call, which reports the timeout and ends the loop.
  \<^verbatim>\<open>input_buf\<close> and \<^verbatim>\<open>i_ptr\<close> keep their values from one iteration of the main loop to the
  next, so bytes that arrive in several iterations are fed one \<open>console_feed\<close> after the
  other.
\<close>

fun console_feed ::
  "fanpico_config \<Rightarrow> string \<Rightarrow> main_state \<Rightarrow> event list \<times> (fault + main_state)"
where
  "console_feed config [] s = ([], Inr s)"
| "console_feed config (c # cs) s =
     (case console_byte config c s of
        (ev, Inl f) \<Rightarrow> (GetcharTimeoutUs 0 # ev, Inl f)
      | (ev, Inr s') \<Rightarrow>
          (let (ev', r) = console_feed config cs s' in (GetcharTimeoutUs 0 # ev @ ev', r)))"

definition console_pump ::
  "fanpico_config \<Rightarrow> string \<Rightarrow> main_state \<Rightarrow> event list \<times> (fault + main_state)"
where
  "console_pump config cs s =
     (case console_feed config cs s of
        (ev, Inl f) \<Rightarrow> (ev, Inl f)
      | (ev, Inr s') \<Rightarrow> (ev @ [GetcharTimeoutUs 0], Inr s'))"

subsection \<open>One iteration of \<^verbatim>\<open>while (1)\<close>, and \<^verbatim>\<open>main\<close>\<close>

text \<open>
  Lines 244 to 328: the tasks up to the frequency computation. The result carries the
  value of \<^verbatim>\<open>change\<close>, which starts at 0 in every iteration.
\<close>

definition sample_tasks ::
  "build \<Rightarrow> extern \<Rightarrow> iter_in \<Rightarrow> main_state \<Rightarrow> main_state \<times> nat \<times> event list"
where
  "sample_tasks b x e s =
     (let (s0, ev0) = loop_head e s;
          (s1, ev1) = task_network x e s0;
          (s2, ev2) = task_led b x e s1;
          (s3, ev3) = task_display x e s2;
          (s4, change4, ev4) = task_poll_pwm b x e (s3, 0);
          (s5, change, ev5) = task_temp b x e (s4, change4);
          (s6, ev6) = task_poll_tacho x e s5
      in (s6, change, ev0 @ ev1 @ ev2 @ ev3 @ ev4 @ ev5 @ ev6))"

text \<open>Lines 244 to 333: all the tasks before the console.\<close>

definition sched_tasks ::
  "build \<Rightarrow> extern \<Rightarrow> iter_in \<Rightarrow> main_state \<Rightarrow> main_state \<times> event list"
where
  "sched_tasks b x e s =
     (let (s6, change, evs) = sample_tasks b x e s;
          (s7, ev7) = task_set_outputs b x e change s6
      in (s7, evs @ ev7))"

definition iteration ::
  "build \<Rightarrow> extern \<Rightarrow> iter_in \<Rightarrow> main_state \<Rightarrow> event list \<times> (fault + main_state)"
where
  "iteration b x e s =
     (let (s7, evs) = sched_tasks b x e s
      in case console_pump (cfg e) (rx e) s7 of
           (ev8, Inl f) \<Rightarrow> (evs @ ev8, Inl f)
         | (ev8, Inr s8) \<Rightarrow>
             (evs @ ev8 @ (if WATCHDOG_ENABLED b then [WatchdogUpdate] else []), Inr s8))"

text \<open>
  The loop never ends; \<open>run\<close> is its first \<open>length es\<close> iterations, or fewer when one of
  them faults.
\<close>

fun run ::
  "build \<Rightarrow> extern \<Rightarrow> iter_in list \<Rightarrow> main_state \<Rightarrow> event list \<times> (fault + main_state)"
where
  "run b x [] s = ([], Inr s)"
| "run b x (e # es) s =
     (case iteration b x e s of
        (ev, Inl f) \<Rightarrow> (ev, Inl f)
      | (ev, Inr s') \<Rightarrow> (let (ev', r) = run b x es s' in (ev @ ev', r)))"

definition main ::
  "build \<Rightarrow> extern \<Rightarrow> boot_in \<Rightarrow> iter_in list \<Rightarrow> event list \<times> (fault + main_state)"
where
  "main b x bi es =
     (let (ev0, s0) = boot b bi; (ev, r) = run b x es s0 in (ev0 @ ev, r))"

subsection \<open>Vocabulary of the properties\<close>

text \<open>
  A byte the console stores: not one of the two ignored codes, not a backspace, not a
  line terminator.
\<close>

definition ordinary :: "char \<Rightarrow> bool" where
  "ordinary c =
     (c \<noteq> CHR 0xFF \<and> c \<noteq> CHR 0x00 \<and> c \<noteq> CHR 0x7F \<and> c \<noteq> CHR 0x08
      \<and> c \<noteq> CHR 0x0A \<and> c \<noteq> CHR 0x0D)"

text \<open>
  What holds of \<^verbatim>\<open>input_buf\<close> and \<^verbatim>\<open>i_ptr\<close> between two rounds of the console loop. The
  cursor may reach \<^verbatim>\<open>sizeof(input_buf)\<close>.
\<close>

definition console_inv :: "main_state \<Rightarrow> bool" where
  "console_inv s =
     (length (input_buf s) = sizeof_input_buf \<and> i_ptr s \<le> sizeof_input_buf
      \<and> (\<forall>j < i_ptr s. input_buf s ! j \<noteq> CHR 0x00))"

text \<open>The lines given to \<^verbatim>\<open>process_command\<close>, in order.\<close>

fun dispatched :: "event list \<Rightarrow> string list" where
  "dispatched [] = []"
| "dispatched (ProcessCommand l # evs) = l # dispatched evs"
| "dispatched (_ # evs) = dispatched evs"

text \<open>The events of a run of stored bytes: a read, and the echo when it is on.\<close>

definition store_echo :: "fanpico_config \<Rightarrow> string \<Rightarrow> event list" where
  "store_echo config cs =
     concat (map (\<lambda>c. GetcharTimeoutUs 0 # (if local_echo config then [Printf [c]] else [])) cs)"


text \<open>
  The arrays of the state hold at least as many elements as the board has channels:
  the loops over the channels stay inside them.
\<close>

definition state_ok :: "build \<Rightarrow> main_state \<Rightarrow> bool" where
  "state_ok b s =
     (MBFAN_COUNT b \<le> length (mbfan_duty (st s)) \<and> MBFAN_COUNT b \<le> length (mbfan_freq (st s))
      \<and> FAN_COUNT b \<le> length (fan_duty (st s)) \<and> SENSOR_COUNT b \<le> length (temp (st s)))"

text \<open>
  The channel counts of a board do not exceed the sizes of the arrays of the state.
\<close>

definition build_ok :: "build \<Rightarrow> bool" where
  "build_ok b =
     (MBFAN_COUNT b \<le> MBFAN_MAX_COUNT b \<and> FAN_COUNT b \<le> FAN_MAX_COUNT b
      \<and> SENSOR_COUNT b \<le> SENSOR_MAX_COUNT b)"

text \<open>The gate of line 293 for channel \<open>i\<close>, on the state \<open>s\<close> at the start of the iteration.\<close>

definition duty_changed :: "iter_in \<Rightarrow> main_state \<Rightarrow> nat \<Rightarrow> bool" where
  "duty_changed e s =
     (\<lambda>i. check_for_change (mbfan_duty (st s) ! i) (roundf (mbfan_pwm_duty e ! i)) 0.5)"

text \<open>The gate of line 313 for sensor \<open>i\<close>.\<close>

definition temp_changed :: "iter_in \<Rightarrow> main_state \<Rightarrow> nat \<Rightarrow> bool" where
  "temp_changed e s = (\<lambda>i. check_for_change (temp (st s) ! i) (get_temperature e i) 0.5)"

text \<open>\<^verbatim>\<open>mbfan_duty\<close> after the first \<open>n\<close> rounds of the loop of lines 291 to 302.\<close>

definition duty_after :: "iter_in \<Rightarrow> main_state \<Rightarrow> nat \<Rightarrow> real list" where
  "duty_after e s n =
     map (\<lambda>j. if j < n \<and> duty_changed e s j then roundf (mbfan_pwm_duty e ! j)
               else mbfan_duty (st s) ! j) [0..<length (mbfan_duty (st s))]"

text \<open>The events of round \<open>j\<close> of that loop.\<close>

definition duty_log :: "iter_in \<Rightarrow> main_state \<Rightarrow> nat \<Rightarrow> event list" where
  "duty_log e s =
     (\<lambda>j. if duty_changed e s j
      then [LogMsg LOG_INFO ''mbfan%d: duty cycle change %.1f --> %.1f''
              [real (j + 1), mbfan_duty (st s) ! j, roundf (mbfan_pwm_duty e ! j)]]
      else [])"

text \<open>\<^verbatim>\<open>temp\<close> after the first \<open>n\<close> rounds of the loop of lines 311 to 321.\<close>

definition temp_after :: "iter_in \<Rightarrow> main_state \<Rightarrow> nat \<Rightarrow> real list" where
  "temp_after e s n =
     map (\<lambda>j. if j < n \<and> temp_changed e s j then get_temperature e j
               else temp (st s) ! j) [0..<length (temp (st s))]"

text \<open>The events of round \<open>j\<close> of that loop.\<close>

definition temp_log :: "iter_in \<Rightarrow> main_state \<Rightarrow> nat \<Rightarrow> event list" where
  "temp_log e s =
     (\<lambda>j. GetTemperature j #
     (if temp_changed e s j
      then [LogMsg LOG_INFO ''sensor%d: Temperature change %.1fC --> %.1fC''
              [real (j + 1), temp (st s) ! j, get_temperature e j]]
      else []))"

text \<open>The nominal interval of each timer, in ms.\<close>

definition interval :: "timer \<Rightarrow> nat" where
  "interval T = (case T of T_network \<Rightarrow> 1 | T_led \<Rightarrow> 1000 | T_display \<Rightarrow> 2000
     | T_poll_pwm \<Rightarrow> 1500 | T_temp \<Rightarrow> 10000 | T_poll_tacho \<Rightarrow> 2000 | T_set_outputs \<Rightarrow> 3000)"

text \<open>The variable of \<^verbatim>\<open>main\<close> that holds a timer.\<close>

definition timer_of :: "main_state \<Rightarrow> timer \<Rightarrow> nat" where
  "timer_of s T = (case T of T_network \<Rightarrow> t_network s | T_led \<Rightarrow> t_led s
     | T_display \<Rightarrow> t_display s | T_poll_pwm \<Rightarrow> t_poll_pwm s | T_temp \<Rightarrow> t_temp s
     | T_poll_tacho \<Rightarrow> t_poll_tacho s | T_set_outputs \<Rightarrow> t_set_outputs s)"

text \<open>
  Does \<^verbatim>\<open>time_passed\<close> answer yes for timer \<open>T\<close>, called with the value the timer has
  at the start of the iteration?
\<close>

definition fires :: "extern \<Rightarrow> iter_in \<Rightarrow> main_state \<Rightarrow> timer \<Rightarrow> bool" where
  "fires x e s T = fst (time_passed x (timer_of s T) (interval T) (clk e T))"

text \<open>
  The channels whose duty-cycle sample passes the gate, and the sensors whose
  temperature does.
\<close>

definition duty_changes :: "build \<Rightarrow> iter_in \<Rightarrow> main_state \<Rightarrow> nat list" where
  "duty_changes b e s = filter (duty_changed e s) [0..<MBFAN_COUNT b]"

definition temp_changes :: "build \<Rightarrow> iter_in \<Rightarrow> main_state \<Rightarrow> nat list" where
  "temp_changes b e s = filter (temp_changed e s) [0..<SENSOR_COUNT b]"

text \<open>The number of samples that pass their gate in the tasks that run in this iteration.\<close>

definition changes :: "build \<Rightarrow> extern \<Rightarrow> iter_in \<Rightarrow> main_state \<Rightarrow> nat" where
  "changes b x e s =
     (if fires x e s T_poll_pwm then length (duty_changes b e s) else 0)
     + (if fires x e s T_temp then length (temp_changes b e s) else 0)"

text \<open>
  The events of the tasks of lines 244 to 328, each taken on the state \<open>s\<close> at the
  start of the iteration.
\<close>

definition sample_events :: "build \<Rightarrow> extern \<Rightarrow> iter_in \<Rightarrow> main_state \<Rightarrow> event list" where
  "sample_events b x e s =
     snd (loop_head e s) @ snd (task_network x e s) @ snd (task_led b x e s)
     @ snd (task_display x e s) @ snd (snd (task_poll_pwm b x e (s, 0)))
     @ snd (snd (task_temp b x e (s, 0))) @ snd (task_poll_tacho x e s)"

text \<open>The events of an iteration, part by part.\<close>

definition outputs_events :: "build \<Rightarrow> extern \<Rightarrow> iter_in \<Rightarrow> main_state \<Rightarrow> event list" where
  "outputs_events b x e s =
     snd (task_set_outputs b x e (changes b x e s) (fst (sample_tasks b x e s)))"

definition console_events :: "build \<Rightarrow> extern \<Rightarrow> iter_in \<Rightarrow> main_state \<Rightarrow> event list" where
  "console_events b x e s = fst (console_pump (cfg e) (rx e) (fst (sched_tasks b x e s)))"

text \<open>What a round for channel \<open>i\<close> keeps: every field but its own element, and the events so far.\<close>

definition fan_round_keeps ::
  "nat \<Rightarrow> fanpico_state \<times> event list \<Rightarrow> fanpico_state \<times> event list \<Rightarrow> bool" where
  "fan_round_keeps i p q =
     (mbfan_duty (fst q) = mbfan_duty (fst p) \<and> mbfan_freq (fst q) = mbfan_freq (fst p)
      \<and> fan_freq (fst q) = fan_freq (fst p) \<and> temp (fst q) = temp (fst p)
      \<and> length (fan_duty (fst q)) = length (fan_duty (fst p))
      \<and> (\<forall>j. j \<noteq> i \<longrightarrow> fan_duty (fst q) ! j = fan_duty (fst p) ! j)
      \<and> (\<exists>new. snd q = snd p @ new
            \<and> (\<forall>ev \<in> set new. (\<exists>l f a. ev = LogMsg l f a) \<or> (\<exists>v. ev = SetPwmDutyCycle i v))))"

definition mbfan_round_keeps ::
  "nat \<Rightarrow> fanpico_state \<times> event list \<Rightarrow> fanpico_state \<times> event list \<Rightarrow> bool" where
  "mbfan_round_keeps i p q =
     (mbfan_duty (fst q) = mbfan_duty (fst p) \<and> fan_duty (fst q) = fan_duty (fst p)
      \<and> fan_freq (fst q) = fan_freq (fst p) \<and> temp (fst q) = temp (fst p)
      \<and> length (mbfan_freq (fst q)) = length (mbfan_freq (fst p))
      \<and> (\<forall>j. j \<noteq> i \<longrightarrow> mbfan_freq (fst q) ! j = mbfan_freq (fst p) ! j)
      \<and> (\<exists>new. snd q = snd p @ new
            \<and> (\<forall>ev \<in> set new. (\<exists>l f a. ev = LogMsg l f a) \<or> (\<exists>v. ev = SetTachoOutputFreq i v))))"

text \<open>The same over the rounds for the channels \<open>js\<close>.\<close>

definition fan_rounds_keep ::
  "nat list \<Rightarrow> fanpico_state \<times> event list \<Rightarrow> fanpico_state \<times> event list \<Rightarrow> bool" where
  "fan_rounds_keep js p q =
     (mbfan_duty (fst q) = mbfan_duty (fst p) \<and> mbfan_freq (fst q) = mbfan_freq (fst p)
      \<and> fan_freq (fst q) = fan_freq (fst p) \<and> temp (fst q) = temp (fst p)
      \<and> length (fan_duty (fst q)) = length (fan_duty (fst p))
      \<and> (\<forall>j. j \<notin> set js \<longrightarrow> fan_duty (fst q) ! j = fan_duty (fst p) ! j)
      \<and> (\<exists>new. snd q = snd p @ new
            \<and> (\<forall>ev \<in> set new. (\<exists>l f a. ev = LogMsg l f a)
                  \<or> (\<exists>i v. i \<in> set js \<and> ev = SetPwmDutyCycle i v))))"

definition mbfan_rounds_keep ::
  "nat list \<Rightarrow> fanpico_state \<times> event list \<Rightarrow> fanpico_state \<times> event list \<Rightarrow> bool" where
  "mbfan_rounds_keep js p q =
     (mbfan_duty (fst q) = mbfan_duty (fst p) \<and> fan_duty (fst q) = fan_duty (fst p)
      \<and> fan_freq (fst q) = fan_freq (fst p) \<and> temp (fst q) = temp (fst p)
      \<and> length (mbfan_freq (fst q)) = length (mbfan_freq (fst p))
      \<and> (\<forall>j. j \<notin> set js \<longrightarrow> mbfan_freq (fst q) ! j = mbfan_freq (fst p) ! j)
      \<and> (\<exists>new. snd q = snd p @ new
            \<and> (\<forall>ev \<in> set new. (\<exists>l f a. ev = LogMsg l f a)
                  \<or> (\<exists>i v. i \<in> set js \<and> ev = SetTachoOutputFreq i v))))"

text \<open>
  The events that show the schedule: timer checks and the calls that start a task's
  work. Diagnostics, echo, the output driver and the command processor are left out.
\<close>

fun scheduled :: "event \<Rightarrow> bool" where
  "scheduled (Call f) = False"
| "scheduled (SleepMs n) = False"
| "scheduled (Printf f) = False"
| "scheduled (LogMsg l f a) = False"
| "scheduled (SetPwmDutyCycle i v) = False"
| "scheduled (SetTachoOutputFreq i v) = False"
| "scheduled (ProcessCommand l) = False"
| "scheduled (WatchdogEnable d) = False"
| "scheduled _ = True"

text \<open>The events of the console loop.\<close>

fun console_event :: "event \<Rightarrow> bool" where
  "console_event (GetcharTimeoutUs n) = True"
| "console_event (Printf f) = True"
| "console_event (ProcessCommand l) = True"
| "console_event _ = False"

text \<open>The events of the tasks before the output update.\<close>

fun sample_event :: "event \<Rightarrow> bool" where
  "sample_event (LogMsg l f a) = True"
| "sample_event (TimePassed T ms) = (T \<noteq> T_set_outputs)"
| "sample_event NetworkPoll = True"
| "sample_event (GpioPut p v) = True"
| "sample_event (Cyw43ArchGpioPut v) = True"
| "sample_event DisplayStatus = True"
| "sample_event GetPwmDutyCycles = True"
| "sample_event (GetTemperature i) = True"
| "sample_event UpdateTachoInputFreq = True"
| "sample_event _ = False"

text \<open>The events of the output update.\<close>

fun outputs_event :: "event \<Rightarrow> bool" where
  "outputs_event (LogMsg l f a) = True"
| "outputs_event (TimePassed T ms) = (T = T_set_outputs)"
| "outputs_event UpdateOutputs = True"
| "outputs_event (SetPwmDutyCycle i v) = True"
| "outputs_event (SetTachoOutputFreq i v) = True"
| "outputs_event _ = False"

text \<open>The events of \<^verbatim>\<open>main\<close> before it arms the watchdog.\<close>

fun boot_event :: "event \<Rightarrow> bool" where
  "boot_event (Call f) = True"
| "boot_event (SleepMs n) = True"
| "boot_event (Printf f) = True"
| "boot_event (LogMsg l f a) = True"
| "boot_event (GpioPut p v) = True"
| "boot_event (Cyw43ArchGpioPut v) = True"
| "boot_event (SetPwmDutyCycle i v) = True"
| "boot_event _ = False"

text \<open>The call that arms the watchdog.\<close>

fun watchdog_enable :: "event \<Rightarrow> bool" where
  "watchdog_enable (WatchdogEnable d) = True"
| "watchdog_enable _ = False"

text \<open>
  The schedule of an iteration that runs to its end: the timer checks in the order of
  the source with their intervals in ms, after each the call that marks the task's work
  when the timer fires, then the reads of the console, then the watchdog refresh.
\<close>

definition schedule :: "build \<Rightarrow> extern \<Rightarrow> iter_in \<Rightarrow> main_state \<Rightarrow> event list" where
  "schedule b x e s =
     TimePassed T_network 1 # (if fires x e s T_network then [NetworkPoll] else [])
     @ TimePassed T_led 1000
       # (if fires x e s T_led
          then (if 0 < LED_PIN b
                then [GpioPut (LED_PIN b) (next_led_state (cfg e) (led_state s))] else [])
               @ (if LIB_PICO_CYW43_ARCH b
                  then [Cyw43ArchGpioPut (next_led_state (cfg e) (led_state s))] else [])
          else [])
     @ TimePassed T_display 2000 # (if fires x e s T_display then [DisplayStatus] else [])
     @ TimePassed T_poll_pwm 1500 # (if fires x e s T_poll_pwm then [GetPwmDutyCycles] else [])
     @ TimePassed T_temp 10000
       # (if fires x e s T_temp then map GetTemperature [0..<SENSOR_COUNT b] else [])
     @ TimePassed T_poll_tacho 2000
       # (if fires x e s T_poll_tacho then [UpdateTachoInputFreq] else [])
     @ (if changes b x e s \<noteq> 0 then [UpdateOutputs]
        else TimePassed T_set_outputs 3000
             # (if fires x e s T_set_outputs then [UpdateOutputs] else []))
     @ replicate (length (rx e) + 1) (GetcharTimeoutUs 0)
     @ [WatchdogUpdate]"

text \<open>Every stored input duty cycle is a whole number.\<close>

definition duty_integral :: "main_state \<Rightarrow> bool" where
  "duty_integral s = (\<forall>v \<in> set (mbfan_duty (st s)). v \<in> \<int>)"

text \<open>What holds of the state between two iterations.\<close>

definition loop_inv :: "build \<Rightarrow> main_state \<Rightarrow> bool" where
  "loop_inv b s = (state_ok b s \<and> console_inv s \<and> duty_integral s)"

subsection \<open>A board and its inputs, for the examples\<close>

text \<open>
  A board with two fans, two motherboard channels and one sensor; a state in the middle
  of a run; an iteration 20 s after boot in which one duty cycle changes, one in which
  both duty cycles and the temperature change, and one in which the console receives a
  command line. \<^verbatim>\<open>time_passed\<close> is the one of the spec.
\<close>

definition example_build :: build where
  "example_build =
     \<lparr>FAN_COUNT = 2, MBFAN_COUNT = 2, SENSOR_COUNT = 1,
      FAN_MAX_COUNT = 2, MBFAN_MAX_COUNT = 2, SENSOR_MAX_COUNT = 1,
      WATCHDOG_ENABLED = True, WATCHDOG_REBOOT_DELAY = 15000,
      TTL_SERIAL = False, LIB_PICO_CYW43_ARCH = False,
      LED_PIN = 25, SENSOR1_READ_PIN = 27, SENSOR2_READ_PIN = 28\<rparr>"

definition example_boot_in :: boot_in where
  "example_boot_in =
     \<lparr>usb_not_connected = 0, watchdog_caused_reboot = False, debug_level = 0,
      boot_time = 1000000, stack_bytes = (\<lambda>i. CHR 0x55)\<rparr>"

definition example_config :: fanpico_config where
  "example_config = \<lparr>led_mode = 0, local_echo = False\<rparr>"

definition example_extern :: extern where
  "example_extern =
     \<lparr>time_passed = time_passed_spec,
      calculate_pwm_duty = (\<lambda>state config i. if i = 0 then 40 else 60.02),
      calculate_tacho_freq = (\<lambda>state config i. if i = 0 then 10.2 else 25)\<rparr>"

definition example_state :: fanpico_state where
  "example_state =
     \<lparr>mbfan_duty = [40, 60], mbfan_freq = [10, 25], fan_duty = [40, 60],
      fan_freq = [20, 30], temp = [30]\<rparr>"

definition example_main :: main_state where
  "example_main = (snd (boot example_build example_boot_in))\<lparr>st := example_state\<rparr>"

definition example_iter :: iter_in where
  "example_iter =
     \<lparr>t_now = 20000000, clk = (\<lambda>T. 20000000), cfg = example_config,
      mbfan_pwm_duty = [40.3, 72.6], get_temperature = (\<lambda>i. 30.4),
      tacho_freq = [20, 30], rx = []\<rparr>"

definition example_iter3 :: iter_in where
  "example_iter3 =
     \<lparr>t_now = 20000000, clk = (\<lambda>T. 20000000), cfg = example_config,
      mbfan_pwm_duty = [55, 72.6], get_temperature = (\<lambda>i. 35),
      tacho_freq = [20, 30], rx = []\<rparr>"

definition example_iter_cmd :: iter_in where
  "example_iter_cmd =
     \<lparr>t_now = 20000000, clk = (\<lambda>T. 20000000), cfg = example_config,
      mbfan_pwm_duty = [40.3, 72.6], get_temperature = (\<lambda>i. 30.4),
      tacho_freq = [20, 30],
      rx = [CHR ''f'', CHR ''a'', CHR ''n'', CHR 0x7F, CHR ''x'', CHR 0x0D]\<rparr>"

section \<open>Properties\<close>

subsection \<open>The command console\<close>

lemma console_feed_append:
  "console_feed config (cs @ ds) s =
     (case console_feed config cs s of
        (ev, Inl f) \<Rightarrow> (ev, Inl f)
      | (ev, Inr s') \<Rightarrow> (let (ev', r) = console_feed config ds s' in (ev @ ev', r)))"
proof (induction cs arbitrary: s)
  case Nil
  show ?case by (simp split: prod.splits)
next
  case (Cons c cs)
  show ?case
  proof (cases "console_byte config c s")
    case (Pair ev r)
    show ?thesis
    proof (cases r)
      case (Inl f)
      with Pair show ?thesis by simp
    next
      case (Inr s')
      with Pair Cons [of s'] show ?thesis
        by (simp split: prod.splits sum.splits)
    qed
  qed
qed

text \<open>The five ways through the loop body.\<close>

lemma console_byte_skip:
  "c = CHR 0xFF \<or> c = CHR 0x00 \<Longrightarrow> console_byte config c s = ([], Inr s)"
  by (simp add: console_byte_def)

lemma console_byte_backspace:
  "c = CHR 0x7F \<or> c = CHR 0x08 \<Longrightarrow>
     console_byte config c s =
       ((if local_echo config then [Printf [CHR 0x08, CHR 0x20, CHR 0x08]] else []),
        Inr (if 0 < i_ptr s then s\<lparr>i_ptr := i_ptr s - 1\<rparr> else s))"
  by (elim disjE; simp add: console_byte_def)

lemma console_byte_dispatch:
  "c = CHR 0x0A \<or> c = CHR 0x0D \<or> (ordinary c \<and> sizeof_input_buf \<le> i_ptr s) \<Longrightarrow>
     console_byte config c s =
       (let echo = (if local_echo config then [Printf [CHR 0x0D, CHR 0x0A]] else [])
        in case buf_write (input_buf s) (i_ptr s) (CHR 0x00) of
             Inl f \<Rightarrow> (echo, Inl f)
           | Inr buf \<Rightarrow>
               if 0 < i_ptr s
               then (echo @ [ProcessCommand (c_str buf)],
                     Inr (s\<lparr>input_buf := buf, i_ptr := 0\<rparr>))
               else (echo, Inr (s\<lparr>input_buf := buf\<rparr>)))"
  by (elim disjE conjE; simp add: console_byte_def ordinary_def)

lemma console_byte_store:
  "ordinary c \<Longrightarrow> i_ptr s < sizeof_input_buf \<Longrightarrow>
     console_byte config c s =
       (case buf_write (input_buf s) (i_ptr s) c of
          Inl f \<Rightarrow> ([], Inl f)
        | Inr buf \<Rightarrow>
            ((if local_echo config then [Printf [c]] else []),
             Inr (s\<lparr>input_buf := buf, i_ptr := i_ptr s + 1\<rparr>)))"
  by (simp add: console_byte_def ordinary_def)

lemma console_byte_cases:
  fixes c :: char and s :: main_state
  obtains (skip) "c = CHR 0xFF \<or> c = CHR 0x00"
  | (backspace) "c = CHR 0x7F \<or> c = CHR 0x08"
  | (dispatch) "c = CHR 0x0A \<or> c = CHR 0x0D \<or> (ordinary c \<and> sizeof_input_buf \<le> i_ptr s)"
  | (store) "ordinary c" "i_ptr s < sizeof_input_buf"
  unfolding ordinary_def by (cases "i_ptr s < sizeof_input_buf") auto

lemma c_str_terminated:
  assumes "i < length buf" and "\<forall>j < i. buf ! j \<noteq> CHR 0x00"
  shows "c_str (buf[i := CHR 0x00]) = take i buf"
proof -
  have "buf[i := CHR 0x00] = take i buf @ CHR 0x00 # drop (Suc i) buf"
    using assms(1) by (simp add: upd_conv_take_nth_drop)
  moreover have "\<forall>c \<in> set (take i buf). c \<noteq> CHR 0x00"
    using assms by (auto simp: in_set_conv_nth)
  ultimately show ?thesis
    by (simp add: c_str_def takeWhile_tail)
qed

lemma console_byte_inv:
  assumes "console_inv s" and "console_byte config c s = (ev, Inr s')"
  shows "console_inv s'"
proof (cases rule: console_byte_cases [where c = c and s = s])
  case skip
  with assms show ?thesis by (simp add: console_byte_skip)
next
  case backspace
  with assms show ?thesis
    by (auto simp: console_byte_backspace console_inv_def split: if_splits)
next
  case dispatch
  with assms show ?thesis
    by (auto simp: console_byte_dispatch console_inv_def buf_write_def Let_def
        split: if_splits)
next
  case store
  with assms show ?thesis
    by (auto simp: console_byte_store console_inv_def buf_write_def ordinary_def
        nth_list_update less_Suc_eq split: if_splits)
qed

lemma console_byte_line:
  assumes "console_inv s" and "ProcessCommand l \<in> set (fst (console_byte config c s))"
  shows "0 < i_ptr s \<and> i_ptr s < sizeof_input_buf \<and> l = take (i_ptr s) (input_buf s)"
proof (cases rule: console_byte_cases [where c = c and s = s])
  case skip
  with assms show ?thesis by (simp add: console_byte_skip)
next
  case backspace
  with assms show ?thesis by (simp add: console_byte_backspace)
next
  case dispatch
  with assms show ?thesis
    by (auto simp: console_byte_dispatch console_inv_def buf_write_def Let_def
        c_str_terminated split: if_splits)
next
  case store
  with assms show ?thesis
    by (auto simp: console_byte_store buf_write_def split: if_splits)
qed

lemma dispatched_append: "dispatched (evs @ evs') = dispatched evs @ dispatched evs'"
  by (induction evs rule: dispatched.induct) simp_all

lemma set_dispatched: "set (dispatched evs) = {l. ProcessCommand l \<in> set evs}"
  by (induction evs rule: dispatched.induct) auto

lemma console_feed_inv:
  "console_inv s \<Longrightarrow> console_feed config cs s = (ev, Inr s') \<Longrightarrow> console_inv s'"
proof (induction cs arbitrary: s ev)
  case Nil
  then show ?case by simp
next
  case (Cons c cs)
  obtain ev1 r1 where b: "console_byte config c s = (ev1, r1)"
    by (cases "console_byte config c s")
  show ?case
  proof (cases r1)
    case (Inl f)
    with b Cons.prems show ?thesis by simp
  next
    case (Inr s1)
    obtain ev2 r2 where f: "console_feed config cs s1 = (ev2, r2)"
      by (cases "console_feed config cs s1")
    from b Inr Cons.prems(1) have "console_inv s1"
      by (simp add: console_byte_inv)
    moreover from b Inr f Cons.prems(2) have "r2 = Inr s'"
      by simp
    ultimately show ?thesis
      using Cons.IH [of s1 ev2] f by simp
  qed
qed

lemma console_feed_lines:
  "console_inv s \<Longrightarrow> l \<in> set (dispatched (fst (console_feed config cs s))) \<Longrightarrow> l \<noteq> []"
proof (induction cs arbitrary: s)
  case Nil
  then show ?case by simp
next
  case (Cons c cs)
  obtain ev1 r1 where b: "console_byte config c s = (ev1, r1)"
    by (cases "console_byte config c s")
  have first: "l \<in> set (dispatched ev1) \<Longrightarrow> l \<noteq> []"
  proof -
    assume "l \<in> set (dispatched ev1)"
    then have "ProcessCommand l \<in> set (fst (console_byte config c s))"
      using b by (simp add: set_dispatched)
    from console_byte_line [OF Cons.prems(1) this] Cons.prems(1)
    show "l \<noteq> []"
      by (auto simp: console_inv_def)
  qed
  show ?case
  proof (cases r1)
    case (Inl f)
    with b Cons.prems(2) first show ?thesis by simp
  next
    case (Inr s1)
    obtain ev2 r2 where f: "console_feed config cs s1 = (ev2, r2)"
      by (cases "console_feed config cs s1")
    from b Inr Cons.prems(1) have inv1: "console_inv s1"
      by (simp add: console_byte_inv)
    from b Inr f Cons.prems(2) have "l \<in> set (dispatched ev1) \<or> l \<in> set (dispatched ev2)"
      by (simp add: dispatched_append)
    then show ?thesis
      using first Cons.IH [OF inv1] f by auto
  qed
qed

lemma dispatched_store_echo: "dispatched (store_echo config cs) = []"
  by (induction cs) (simp_all add: store_echo_def dispatched_append)

lemma console_feed_store:
  assumes "\<forall>c \<in> set cs. ordinary c"
    and "length (input_buf s) = sizeof_input_buf"
    and "i_ptr s + length cs \<le> sizeof_input_buf"
  shows "\<exists>s'. console_feed config cs s = (store_echo config cs, Inr s')
           \<and> i_ptr s' = i_ptr s + length cs
           \<and> length (input_buf s') = sizeof_input_buf
           \<and> take (i_ptr s') (input_buf s') = take (i_ptr s) (input_buf s) @ cs"
  using assms
proof (induction cs arbitrary: s)
  case Nil
  then show ?case by (simp add: store_echo_def)
next
  case (Cons c cs)
  let ?s1 = "s\<lparr>input_buf := (input_buf s)[i_ptr s := c], i_ptr := i_ptr s + 1\<rparr>"
  from Cons.prems have c: "ordinary c" and lt: "i_ptr s < sizeof_input_buf"
    by simp_all
  have b: "console_byte config c s =
      ((if local_echo config then [Printf [c]] else []), Inr ?s1)"
    using Cons.prems(2) lt by (simp add: console_byte_store [OF c lt] buf_write_def)
  from Cons.prems have "\<forall>c \<in> set cs. ordinary c"
    and "length (input_buf ?s1) = sizeof_input_buf"
    and "i_ptr ?s1 + length cs \<le> sizeof_input_buf"
    by simp_all
  from Cons.IH [OF this] obtain s' where
    f: "console_feed config cs ?s1 = (store_echo config cs, Inr s')"
    and i: "i_ptr s' = i_ptr ?s1 + length cs"
    and l: "length (input_buf s') = sizeof_input_buf"
    and t: "take (i_ptr s') (input_buf s') = take (i_ptr ?s1) (input_buf ?s1) @ cs"
    by blast
  have "take (Suc (i_ptr s)) ((input_buf s)[i_ptr s := c]) = take (i_ptr s) (input_buf s) @ [c]"
    using lt Cons.prems(2) by (simp add: take_Suc_conv_app_nth)
  with t have "take (i_ptr s') (input_buf s') = take (i_ptr s) (input_buf s) @ c # cs"
    by simp
  with b f i l show ?case
    by (simp add: store_echo_def)
qed

lemma console_byte_overflow:
  assumes "i_ptr s = sizeof_input_buf" and "length (input_buf s) = sizeof_input_buf"
    and "c = CHR 0x0A \<or> c = CHR 0x0D \<or> ordinary c"
  shows "console_byte config c s =
     ((if local_echo config then [Printf [CHR 0x0D, CHR 0x0A]] else []),
      Inl (OutOfBounds sizeof_input_buf))"
proof -
  from assms(1,3) have "c = CHR 0x0A \<or> c = CHR 0x0D \<or> (ordinary c \<and> sizeof_input_buf \<le> i_ptr s)"
    by auto
  from console_byte_dispatch [OF this] assms(1,2) show ?thesis
    by (simp add: buf_write_def)
qed

lemma console_feed_overflow:
  assumes "\<forall>c \<in> set cs. ordinary c"
    and "c = CHR 0x0A \<or> c = CHR 0x0D \<or> ordinary c"
    and "length cs = sizeof_input_buf"
    and "i_ptr s = 0" and "length (input_buf s) = sizeof_input_buf"
  shows "snd (console_feed config (cs @ c # ds) s) = Inl (OutOfBounds sizeof_input_buf)
           \<and> dispatched (fst (console_feed config (cs @ c # ds) s)) = []"
proof -
  from console_feed_store [OF assms(1) assms(5), of config] assms(3,4)
  obtain s' where f: "console_feed config cs s = (store_echo config cs, Inr s')"
    and i: "i_ptr s' = sizeof_input_buf" and l: "length (input_buf s') = sizeof_input_buf"
    by auto
  from console_byte_overflow [OF i l assms(2)] f show ?thesis
    by (simp add: console_feed_append dispatched_append dispatched_store_echo)
qed

lemma console_feed_fan_x:
  assumes "i_ptr s = 0" and "length (input_buf s) = sizeof_input_buf"
    and "bs = CHR 0x7F \<or> bs = CHR 0x08"
  shows "\<exists>evs s'. console_feed config [CHR ''f'', CHR ''a'', CHR ''n'', bs, CHR ''x'', CHR 0x0D] s
             = (evs, Inr s')
           \<and> dispatched evs = [''fax''] \<and> i_ptr s' = 0"
proof -
  from assms(2) have "4 \<le> length (input_buf s)"
    by (simp add: sizeof_input_buf_def)
  then obtain b0 b1 b2 b3 r where buf: "input_buf s = b0 # b1 # b2 # b3 # r"
    by (metis (no_types, opaque_lifting) Suc_le_length_iff numeral_eq_Suc pred_numeral_simps(2,3) semiring_norm(26,27))
  from assms(3) show ?thesis
    by (elim disjE; simp add: console_byte_def buf_write_def c_str_def assms(1) buf
        sizeof_input_buf_def dispatched_append)
qed

lemma boot_console:
  "i_ptr (snd (boot b bi)) = 0 \<and> length (input_buf (snd (boot b bi))) = sizeof_input_buf"
  by (simp add: boot_def)

lemma ordinary_a: "ordinary CHR ''a''"
  by (simp add: ordinary_def)

text \<open>
  C3, as amended. The bytes \<open>f\<close>, \<open>a\<close>, \<open>n\<close>, a backspace (either code), \<open>x\<close> and CR, fed
  into an empty console buffer, give \<^verbatim>\<open>process_command\<close> exactly one line, \<open>fax\<close>, and
  leave the buffer empty: a backspace takes the last buffered character away (the cursor
  goes back by one) and nothing more.
\<close>

theorem console_backspace_line:
  assumes "i_ptr s = 0" and "length (input_buf s) = sizeof_input_buf"
    and "bs = CHR 0x7F \<or> bs = CHR 0x08"
  shows "(\<exists>evs s'. console_feed config [CHR ''f'', CHR ''a'', CHR ''n'', bs, CHR ''x'', CHR 0x0D] s
             = (evs, Inr s')
           \<and> dispatched evs = [''fax''] \<and> i_ptr s' = 0)
         \<and> (\<forall>t. 0 < i_ptr t \<longrightarrow>
               (\<exists>evs. console_byte config bs t = (evs, Inr (t\<lparr>i_ptr := i_ptr t - 1\<rparr>))))"
  using console_feed_fan_x [OF assms, of config] assms(3)
  by (auto simp: console_byte_backspace)

text \<open>The theorem of C3 at the state \<^verbatim>\<open>main\<close> enters the loop with, backspace \<open>0x08\<close>.\<close>

theorem console_backspace_line_witness:
  "dispatched (fst (console_feed example_config
      [CHR ''f'', CHR ''a'', CHR ''n'', CHR 0x08, CHR ''x'', CHR 0x0D]
      (snd (boot example_build example_boot_in)))) = [''fax'']"
  using console_backspace_line [of "snd (boot example_build example_boot_in)" "CHR 0x08"
      example_config]
  by (auto simp: boot_console)

text \<open>C3 as the spec has it, with the line \<open>x\<close>, fails: the line is not \<open>x\<close>.\<close>

theorem console_line_x_counterexample:
  "dispatched (fst (console_feed example_config
      [CHR ''f'', CHR ''a'', CHR ''n'', CHR 0x7F, CHR ''x'', CHR 0x0D]
      (snd (boot example_build example_boot_in)))) \<noteq> [''x'']"
  using console_feed_fan_x [of "snd (boot example_build example_boot_in)" "CHR 0x7F"
      example_config]
  by (auto simp: boot_console)






text \<open>
  C8. 1024 bytes \<open>a\<close> and a CR: when the NUL terminator is written the cursor is 1024,
  the length of the array, not 1023 at most.
\<close>

theorem console_nul_write_at_1024:
  "length (input_buf (snd (boot example_build example_boot_in))) = 1024
   \<and> snd (console_feed example_config (replicate 1024 CHR ''a'' @ [CHR 0x0D])
          (snd (boot example_build example_boot_in))) = Inl (OutOfBounds 1024)"
proof -
  have "sizeof_input_buf = 1024"
    by (simp add: sizeof_input_buf_def)
  then show ?thesis
    using console_feed_overflow [of "replicate sizeof_input_buf CHR ''a''" "CHR 0x0D"
        "snd (boot example_build example_boot_in)" example_config "[]"]
    by (simp add: boot_console ordinary_a)
qed

subsection \<open>The two sampling loops\<close>

lemma duty_after_0: "duty_after e s 0 = mbfan_duty (st s)"
  by (simp add: duty_after_def map_nth)

lemma duty_after_nth:
  "n < length (mbfan_duty (st s)) \<Longrightarrow> duty_after e s n ! n = mbfan_duty (st s) ! n"
  by (simp add: duty_after_def)

lemma duty_after_Suc:
  assumes "n < length (mbfan_duty (st s))"
  shows "duty_after e s (Suc n) =
     (if duty_changed e s n then (duty_after e s n)[n := roundf (mbfan_pwm_duty e ! n)]
      else duty_after e s n)"
proof (rule nth_equalityI)
  show "length (duty_after e s (Suc n)) =
    length (if duty_changed e s n then (duty_after e s n)[n := roundf (mbfan_pwm_duty e ! n)]
      else duty_after e s n)"
    by (simp add: duty_after_def)
next
  fix i
  assume "i < length (duty_after e s (Suc n))"
  then have i: "i < length (mbfan_duty (st s))"
    by (simp add: duty_after_def)
  show "duty_after e s (Suc n) ! i =
    (if duty_changed e s n then (duty_after e s n)[n := roundf (mbfan_pwm_duty e ! n)]
      else duty_after e s n) ! i"
  proof (cases "i = n")
    case True
    with i show ?thesis by (simp add: duty_after_def)
  next
    case False
    with i show ?thesis by (simp add: duty_after_def less_Suc_eq)
  qed
qed

lemma poll_pwm_step_unchanged:
  "\<not> check_for_change (mbfan_duty (st s) ! i) (roundf (mbfan_pwm_duty e ! i)) 0.5 \<Longrightarrow>
     poll_pwm_step e i (s, change, evs) = (s, change, evs)"
  by (simp add: poll_pwm_step_def)

lemma poll_pwm_step_changed:
  "check_for_change (mbfan_duty (st s) ! i) (roundf (mbfan_pwm_duty e ! i)) 0.5 \<Longrightarrow>
     poll_pwm_step e i (s, change, evs) =
       (s\<lparr>st := (st s)\<lparr>mbfan_duty := (mbfan_duty (st s))[i := roundf (mbfan_pwm_duty e ! i)]\<rparr>,
          t_set_outputs := 0\<rparr>,
        change + 1,
        evs @ [LogMsg LOG_INFO ''mbfan%d: duty cycle change %.1f --> %.1f''
                 [real (i + 1), mbfan_duty (st s) ! i, roundf (mbfan_pwm_duty e ! i)]])"
  by (simp add: poll_pwm_step_def Let_def)

lemma poll_pwm_fold:
  assumes "n \<le> length (mbfan_duty (st s))"
  shows "fold (poll_pwm_step e) [0..<n] (s, change, evs) =
     (s\<lparr>st := (st s)\<lparr>mbfan_duty := duty_after e s n\<rparr>,
        t_set_outputs := (if filter (duty_changed e s) [0..<n] = [] then t_set_outputs s else 0)\<rparr>,
      change + length (filter (duty_changed e s) [0..<n]),
      evs @ concat (map (duty_log e s) [0..<n]))"
  using assms
proof (induction n)
  case 0
  show ?case by (simp add: duty_after_0)
next
  case (Suc n)
  then have lt: "n < length (mbfan_duty (st s))" and le: "n \<le> length (mbfan_duty (st s))"
    by simp_all
  let ?s = "s\<lparr>st := (st s)\<lparr>mbfan_duty := duty_after e s n\<rparr>,
        t_set_outputs := (if filter (duty_changed e s) [0..<n] = [] then t_set_outputs s else 0)\<rparr>"
  have cur: "mbfan_duty (st ?s) ! n = mbfan_duty (st s) ! n"
    by (simp add: duty_after_nth [OF lt])
  have "fold (poll_pwm_step e) [0..<Suc n] (s, change, evs) =
      poll_pwm_step e n (fold (poll_pwm_step e) [0..<n] (s, change, evs))"
    by simp
  also have "\<dots> = poll_pwm_step e n (?s, change + length (filter (duty_changed e s) [0..<n]),
      evs @ concat (map (duty_log e s) [0..<n]))"
    by (simp only: Suc.IH [OF le])
  finally have unf: "fold (poll_pwm_step e) [0..<Suc n] (s, change, evs) =
      poll_pwm_step e n (?s, change + length (filter (duty_changed e s) [0..<n]),
      evs @ concat (map (duty_log e s) [0..<n]))" .
  show ?case
  proof (cases "duty_changed e s n")
    case True
    then have "check_for_change (mbfan_duty (st ?s) ! n) (roundf (mbfan_pwm_duty e ! n)) 0.5"
      unfolding cur by (simp add: duty_changed_def)
    moreover have "duty_log e s n =
        [LogMsg LOG_INFO ''mbfan%d: duty cycle change %.1f --> %.1f''
           [real (n + 1), mbfan_duty (st s) ! n, roundf (mbfan_pwm_duty e ! n)]]"
      using True by (simp add: duty_log_def)
    ultimately show ?thesis
      unfolding unf using True
      by (simp add: poll_pwm_step_changed duty_after_Suc [OF lt] duty_after_nth [OF lt])
  next
    case False
    then have "\<not> check_for_change (mbfan_duty (st ?s) ! n) (roundf (mbfan_pwm_duty e ! n)) 0.5"
      unfolding cur by (simp add: duty_changed_def)
    moreover have "duty_log e s n = []"
      using False by (simp add: duty_log_def)
    ultimately show ?thesis
      unfolding unf using False
      by (simp add: poll_pwm_step_unchanged duty_after_Suc [OF lt])
  qed
qed

lemma temp_after_0: "temp_after e s 0 = temp (st s)"
  by (simp add: temp_after_def map_nth)

lemma temp_after_nth:
  "n < length (temp (st s)) \<Longrightarrow> temp_after e s n ! n = temp (st s) ! n"
  by (simp add: temp_after_def)

lemma temp_after_Suc:
  assumes "n < length (temp (st s))"
  shows "temp_after e s (Suc n) =
     (if temp_changed e s n then (temp_after e s n)[n := get_temperature e n]
      else temp_after e s n)"
proof (rule nth_equalityI)
  show "length (temp_after e s (Suc n)) =
    length (if temp_changed e s n then (temp_after e s n)[n := get_temperature e n]
      else temp_after e s n)"
    by (simp add: temp_after_def)
next
  fix i
  assume "i < length (temp_after e s (Suc n))"
  then have i: "i < length (temp (st s))"
    by (simp add: temp_after_def)
  show "temp_after e s (Suc n) ! i =
    (if temp_changed e s n then (temp_after e s n)[n := get_temperature e n]
      else temp_after e s n) ! i"
  proof (cases "i = n")
    case True
    with i show ?thesis by (simp add: temp_after_def)
  next
    case False
    with i show ?thesis by (simp add: temp_after_def less_Suc_eq)
  qed
qed

lemma temp_step_unchanged:
  "\<not> check_for_change (temp (st s) ! i) (get_temperature e i) 0.5 \<Longrightarrow>
     temp_step e i (s, change, evs) = (s, change, evs @ [GetTemperature i])"
  by (simp add: temp_step_def Let_def)

lemma temp_step_changed:
  "check_for_change (temp (st s) ! i) (get_temperature e i) 0.5 \<Longrightarrow>
     temp_step e i (s, change, evs) =
       (s\<lparr>st := (st s)\<lparr>temp := (temp (st s))[i := get_temperature e i]\<rparr>\<rparr>,
        change + 1,
        evs @ [GetTemperature i,
               LogMsg LOG_INFO ''sensor%d: Temperature change %.1fC --> %.1fC''
                 [real (i + 1), temp (st s) ! i, get_temperature e i]])"
  by (simp add: temp_step_def Let_def)

lemma temp_fold:
  assumes "n \<le> length (temp (st s))"
  shows "fold (temp_step e) [0..<n] (s, change, evs) =
     (s\<lparr>st := (st s)\<lparr>temp := temp_after e s n\<rparr>\<rparr>,
      change + length (filter (temp_changed e s) [0..<n]),
      evs @ concat (map (temp_log e s) [0..<n]))"
  using assms
proof (induction n)
  case 0
  show ?case by (simp add: temp_after_0)
next
  case (Suc n)
  then have lt: "n < length (temp (st s))" and le: "n \<le> length (temp (st s))"
    by simp_all
  let ?s = "s\<lparr>st := (st s)\<lparr>temp := temp_after e s n\<rparr>\<rparr>"
  have cur: "temp (st ?s) ! n = temp (st s) ! n"
    by (simp add: temp_after_nth [OF lt])
  have "fold (temp_step e) [0..<Suc n] (s, change, evs) =
      temp_step e n (fold (temp_step e) [0..<n] (s, change, evs))"
    by simp
  also have "\<dots> = temp_step e n (?s, change + length (filter (temp_changed e s) [0..<n]),
      evs @ concat (map (temp_log e s) [0..<n]))"
    by (simp only: Suc.IH [OF le])
  finally have unf: "fold (temp_step e) [0..<Suc n] (s, change, evs) =
      temp_step e n (?s, change + length (filter (temp_changed e s) [0..<n]),
      evs @ concat (map (temp_log e s) [0..<n]))" .
  show ?case
  proof (cases "temp_changed e s n")
    case True
    then have "check_for_change (temp (st ?s) ! n) (get_temperature e n) 0.5"
      unfolding cur by (simp add: temp_changed_def)
    moreover have "temp_log e s n =
        [GetTemperature n,
         LogMsg LOG_INFO ''sensor%d: Temperature change %.1fC --> %.1fC''
           [real (n + 1), temp (st s) ! n, get_temperature e n]]"
      using True by (simp add: temp_log_def)
    ultimately show ?thesis
      unfolding unf using True
      by (simp add: temp_step_changed temp_after_Suc [OF lt] temp_after_nth [OF lt])
  next
    case False
    then have "\<not> check_for_change (temp (st ?s) ! n) (get_temperature e n) 0.5"
      unfolding cur by (simp add: temp_changed_def)
    moreover have "temp_log e s n = [GetTemperature n]"
      using False by (simp add: temp_log_def)
    ultimately show ?thesis
      unfolding unf using False
      by (simp add: temp_step_unchanged temp_after_Suc [OF lt])
  qed
qed

subsection \<open>The tasks in closed form\<close>

lemma loop_head_closed:
  "loop_head e s =
     (s\<lparr>t_last := t_now e, max_delta := max (max_delta s) (int (t_now e) - int (t_last s))\<rparr>,
      if max_delta s < int (t_now e) - int (t_last s)
      then [LogMsg LOG_DEBUG ''core0: max_loop_time=%lld''
              [real_of_int (int (t_now e) - int (t_last s))]]
      else [])"
  by (simp add: loop_head_def Let_def max_def)

lemma task_network_closed:
  "task_network x e s =
     (s\<lparr>t_network := snd (time_passed x (t_network s) 1 (clk e T_network))\<rparr>,
      TimePassed T_network 1
      # (if fst (time_passed x (t_network s) 1 (clk e T_network)) then [NetworkPoll] else []))"
  by (simp add: task_network_def split_def Let_def)

lemma task_led_closed:
  "task_led b x e s =
     (s\<lparr>t_led := snd (time_passed x (t_led s) 1000 (clk e T_led)),
        led_state := (if fst (time_passed x (t_led s) 1000 (clk e T_led))
                      then next_led_state (cfg e) (led_state s) else led_state s)\<rparr>,
      TimePassed T_led 1000
      # (if fst (time_passed x (t_led s) 1000 (clk e T_led))
         then (if 0 < LED_PIN b
               then [GpioPut (LED_PIN b) (next_led_state (cfg e) (led_state s))] else [])
              @ (if LIB_PICO_CYW43_ARCH b
                 then [Cyw43ArchGpioPut (next_led_state (cfg e) (led_state s))] else [])
         else []))"
  by (simp add: task_led_def split_def Let_def)

lemma task_display_closed:
  "task_display x e s =
     (s\<lparr>t_display := snd (time_passed x (t_display s) 2000 (clk e T_display))\<rparr>,
      TimePassed T_display 2000
      # (if fst (time_passed x (t_display s) 2000 (clk e T_display))
         then [LogMsg LOG_DEBUG ''Update display'' [], DisplayStatus] else []))"
  by (simp add: task_display_def split_def Let_def)

lemma task_poll_tacho_closed:
  "task_poll_tacho x e s =
     (s\<lparr>t_poll_tacho := snd (time_passed x (t_poll_tacho s) 2000 (clk e T_poll_tacho)),
        st := (st s)\<lparr>fan_freq :=
                 (if fst (time_passed x (t_poll_tacho s) 2000 (clk e T_poll_tacho))
                  then tacho_freq e else fan_freq (st s))\<rparr>\<rparr>,
      TimePassed T_poll_tacho 2000
      # (if fst (time_passed x (t_poll_tacho s) 2000 (clk e T_poll_tacho))
         then [LogMsg LOG_DEBUG ''Updating tacho input signals.'' [], UpdateTachoInputFreq]
         else []))"
  by (simp add: task_poll_tacho_def split_def Let_def)

lemma task_poll_pwm_closed:
  assumes "MBFAN_COUNT b \<le> length (mbfan_duty (st s))"
  shows "task_poll_pwm b x e (s, change) =
     (s\<lparr>t_poll_pwm := snd (time_passed x (t_poll_pwm s) 1500 (clk e T_poll_pwm)),
        st := (st s)\<lparr>mbfan_duty :=
                 (if fst (time_passed x (t_poll_pwm s) 1500 (clk e T_poll_pwm))
                  then duty_after e s (MBFAN_COUNT b) else mbfan_duty (st s))\<rparr>,
        t_set_outputs :=
          (if fst (time_passed x (t_poll_pwm s) 1500 (clk e T_poll_pwm))
              \<and> filter (duty_changed e s) [0..<MBFAN_COUNT b] \<noteq> []
           then 0 else t_set_outputs s)\<rparr>,
      change + (if fst (time_passed x (t_poll_pwm s) 1500 (clk e T_poll_pwm))
                then length (filter (duty_changed e s) [0..<MBFAN_COUNT b]) else 0),
      TimePassed T_poll_pwm 1500
      # (if fst (time_passed x (t_poll_pwm s) 1500 (clk e T_poll_pwm))
         then [LogMsg LOG_DEBUG ''Read PWM inputs'' [], GetPwmDutyCycles]
              @ concat (map (duty_log e s) [0..<MBFAN_COUNT b])
         else []))"
proof -
  let ?s1 = "s\<lparr>t_poll_pwm := snd (time_passed x (t_poll_pwm s) 1500 (clk e T_poll_pwm))\<rparr>"
  have same: "duty_changed e ?s1 = duty_changed e s" "duty_log e ?s1 = duty_log e s"
    "duty_after e ?s1 = duty_after e s"
    by (simp_all add: fun_eq_iff duty_changed_def duty_log_def duty_after_def)
  from assms have "MBFAN_COUNT b \<le> length (mbfan_duty (st ?s1))"
    by simp
  from poll_pwm_fold [OF this, of e] show ?thesis
    by (simp add: task_poll_pwm_def split_def Let_def same)
qed

lemma task_temp_closed:
  assumes "SENSOR_COUNT b \<le> length (temp (st s))"
  shows "task_temp b x e (s, change) =
     (s\<lparr>t_temp := snd (time_passed x (t_temp s) 10000 (clk e T_temp)),
        st := (st s)\<lparr>temp :=
                 (if fst (time_passed x (t_temp s) 10000 (clk e T_temp))
                  then temp_after e s (SENSOR_COUNT b) else temp (st s))\<rparr>\<rparr>,
      change + (if fst (time_passed x (t_temp s) 10000 (clk e T_temp))
                then length (filter (temp_changed e s) [0..<SENSOR_COUNT b]) else 0),
      TimePassed T_temp 10000
      # (if fst (time_passed x (t_temp s) 10000 (clk e T_temp))
         then [LogMsg LOG_DEBUG ''Read temperature sensors'' []]
              @ concat (map (temp_log e s) [0..<SENSOR_COUNT b])
         else []))"
proof -
  let ?s1 = "s\<lparr>t_temp := snd (time_passed x (t_temp s) 10000 (clk e T_temp))\<rparr>"
  have same: "temp_changed e ?s1 = temp_changed e s" "temp_log e ?s1 = temp_log e s"
    "temp_after e ?s1 = temp_after e s"
    by (simp_all add: fun_eq_iff temp_changed_def temp_log_def temp_after_def)
  from assms have "SENSOR_COUNT b \<le> length (temp (st ?s1))"
    by simp
  from temp_fold [OF this, of e] show ?thesis
    by (simp add: task_temp_def split_def Let_def same)
qed

lemmas vocab_defs = fires_def interval_def timer_of_def changes_def
  duty_changes_def temp_changes_def duty_changed_def temp_changed_def duty_log_def temp_log_def
  duty_after_def temp_after_def

lemmas task_closed = loop_head_closed task_network_closed task_led_closed task_display_closed
  task_poll_tacho_closed

lemma sample_tasks_change:
  assumes "state_ok b s"
  shows "fst (snd (sample_tasks b x e s)) = changes b x e s"
proof -
  from assms have ok: "MBFAN_COUNT b \<le> length (mbfan_duty (st s))"
    "SENSOR_COUNT b \<le> length (temp (st s))"
    by (simp_all add: state_ok_def)
  show ?thesis
    unfolding sample_tasks_def
    by (simp add: split_def Let_def task_closed task_poll_pwm_closed task_temp_closed ok
        vocab_defs split del: if_split cong del: if_weak_cong)
qed

lemma sample_tasks_events:
  assumes "state_ok b s"
  shows "snd (snd (sample_tasks b x e s)) = sample_events b x e s"
proof -
  from assms have ok: "MBFAN_COUNT b \<le> length (mbfan_duty (st s))"
    "SENSOR_COUNT b \<le> length (temp (st s))"
    by (simp_all add: state_ok_def)
  show ?thesis
    unfolding sample_tasks_def sample_events_def
    by (simp add: split_def Let_def task_closed task_poll_pwm_closed task_temp_closed ok
        vocab_defs split del: if_split cong del: if_weak_cong)
qed

lemma sample_tasks_state:
  assumes "state_ok b s"
  shows "input_buf (fst (sample_tasks b x e s)) = input_buf s"
    and "i_ptr (fst (sample_tasks b x e s)) = i_ptr s"
    and "t_set_outputs (fst (sample_tasks b x e s)) =
           (if fires x e s T_poll_pwm \<and> duty_changes b e s \<noteq> [] then 0 else t_set_outputs s)"
    and "st (fst (sample_tasks b x e s)) = (st s)
          \<lparr>mbfan_duty := (if fires x e s T_poll_pwm then duty_after e s (MBFAN_COUNT b)
                           else mbfan_duty (st s)),
           temp := (if fires x e s T_temp then temp_after e s (SENSOR_COUNT b)
                    else temp (st s)),
           fan_freq := (if fires x e s T_poll_tacho then tacho_freq e else fan_freq (st s))\<rparr>"
proof -
  from assms have ok: "MBFAN_COUNT b \<le> length (mbfan_duty (st s))"
    "SENSOR_COUNT b \<le> length (temp (st s))"
    by (simp_all add: state_ok_def)
  show "input_buf (fst (sample_tasks b x e s)) = input_buf s"
    unfolding sample_tasks_def
    by (simp add: split_def Let_def task_closed task_poll_pwm_closed task_temp_closed ok
        split del: if_split cong del: if_weak_cong)
  show "i_ptr (fst (sample_tasks b x e s)) = i_ptr s"
    unfolding sample_tasks_def
    by (simp add: split_def Let_def task_closed task_poll_pwm_closed task_temp_closed ok
        split del: if_split cong del: if_weak_cong)
  show "t_set_outputs (fst (sample_tasks b x e s)) =
           (if fires x e s T_poll_pwm \<and> duty_changes b e s \<noteq> [] then 0 else t_set_outputs s)"
    unfolding sample_tasks_def
    by (simp add: split_def Let_def task_closed task_poll_pwm_closed task_temp_closed ok
        vocab_defs split del: if_split cong del: if_weak_cong)
  show "st (fst (sample_tasks b x e s)) = (st s)
          \<lparr>mbfan_duty := (if fires x e s T_poll_pwm then duty_after e s (MBFAN_COUNT b)
                           else mbfan_duty (st s)),
           temp := (if fires x e s T_temp then temp_after e s (SENSOR_COUNT b)
                    else temp (st s)),
           fan_freq := (if fires x e s T_poll_tacho then tacho_freq e else fan_freq (st s))\<rparr>"
    unfolding sample_tasks_def
    by (simp add: split_def Let_def task_closed task_poll_pwm_closed task_temp_closed ok
        vocab_defs split del: if_split cong del: if_weak_cong)
qed

subsection \<open>The two loops of \<^verbatim>\<open>update_outputs\<close>\<close>

lemma fold_invariant:
  assumes "\<And>i p. i \<in> set js \<Longrightarrow> I p \<Longrightarrow> I (f i p)" and "I p"
  shows "I (fold f js p)"
  using assms by (induction js arbitrary: p) simp_all

lemma update_fan_keeps: "fan_round_keeps i p (update_fan x config i p)"
  by (cases p) (simp add: update_fan_def fan_round_keeps_def Let_def)

lemma update_mbfan_keeps: "mbfan_round_keeps i p (update_mbfan x config i p)"
  by (cases p) (simp add: update_mbfan_def mbfan_round_keeps_def Let_def)

lemma fold_update_fan_keeps: "fan_rounds_keep js p (fold (update_fan x config) js p)"
proof (rule fold_invariant [where I = "fan_rounds_keep js p"])
  show "fan_rounds_keep js p p"
    by (simp add: fan_rounds_keep_def)
next
  fix i q
  assume i: "i \<in> set js" and q: "fan_rounds_keep js p q"
  from update_fan_keeps [of i q x config] obtain new where
    n: "snd (update_fan x config i q) = snd q @ new"
    "\<forall>ev \<in> set new. (\<exists>l f a. ev = LogMsg l f a) \<or> (\<exists>v. ev = SetPwmDutyCycle i v)"
    by (auto simp: fan_round_keeps_def)
  from q obtain old where
    o: "snd q = snd p @ old"
    "\<forall>ev \<in> set old. (\<exists>l f a. ev = LogMsg l f a)
        \<or> (\<exists>i v. i \<in> set js \<and> ev = SetPwmDutyCycle i v)"
    by (auto simp: fan_rounds_keep_def)
  have "snd (update_fan x config i q) = snd p @ (old @ new)"
    using n(1) o(1) by simp
  moreover have "\<forall>ev \<in> set (old @ new). (\<exists>l f a. ev = LogMsg l f a)
        \<or> (\<exists>i v. i \<in> set js \<and> ev = SetPwmDutyCycle i v)"
    using n(2) o(2) i by auto
  ultimately have ev: "\<exists>new. snd (update_fan x config i q) = snd p @ new
      \<and> (\<forall>ev \<in> set new. (\<exists>l f a. ev = LogMsg l f a)
            \<or> (\<exists>i v. i \<in> set js \<and> ev = SetPwmDutyCycle i v))"
    by blast
  have "\<forall>j. j \<notin> set js \<longrightarrow> fan_duty (fst (update_fan x config i q)) ! j = fan_duty (fst p) ! j"
    using update_fan_keeps [of i q x config] q i
    by (auto simp: fan_round_keeps_def fan_rounds_keep_def)
  with ev update_fan_keeps [of i q x config] q
  show "fan_rounds_keep js p (update_fan x config i q)"
    by (simp add: fan_round_keeps_def fan_rounds_keep_def)
qed

lemma fold_update_mbfan_keeps: "mbfan_rounds_keep js p (fold (update_mbfan x config) js p)"
proof (rule fold_invariant [where I = "mbfan_rounds_keep js p"])
  show "mbfan_rounds_keep js p p"
    by (simp add: mbfan_rounds_keep_def)
next
  fix i q
  assume i: "i \<in> set js" and q: "mbfan_rounds_keep js p q"
  from update_mbfan_keeps [of i q x config] obtain new where
    n: "snd (update_mbfan x config i q) = snd q @ new"
    "\<forall>ev \<in> set new. (\<exists>l f a. ev = LogMsg l f a) \<or> (\<exists>v. ev = SetTachoOutputFreq i v)"
    by (auto simp: mbfan_round_keeps_def)
  from q obtain old where
    o: "snd q = snd p @ old"
    "\<forall>ev \<in> set old. (\<exists>l f a. ev = LogMsg l f a)
        \<or> (\<exists>i v. i \<in> set js \<and> ev = SetTachoOutputFreq i v)"
    by (auto simp: mbfan_rounds_keep_def)
  have "snd (update_mbfan x config i q) = snd p @ (old @ new)"
    using n(1) o(1) by simp
  moreover have "\<forall>ev \<in> set (old @ new). (\<exists>l f a. ev = LogMsg l f a)
        \<or> (\<exists>i v. i \<in> set js \<and> ev = SetTachoOutputFreq i v)"
    using n(2) o(2) i by auto
  ultimately have ev: "\<exists>new. snd (update_mbfan x config i q) = snd p @ new
      \<and> (\<forall>ev \<in> set new. (\<exists>l f a. ev = LogMsg l f a)
            \<or> (\<exists>i v. i \<in> set js \<and> ev = SetTachoOutputFreq i v))"
    by blast
  have "\<forall>j. j \<notin> set js \<longrightarrow>
      mbfan_freq (fst (update_mbfan x config i q)) ! j = mbfan_freq (fst p) ! j"
    using update_mbfan_keeps [of i q x config] q i
    by (auto simp: mbfan_round_keeps_def mbfan_rounds_keep_def)
  with ev update_mbfan_keeps [of i q x config] q
  show "mbfan_rounds_keep js p (update_mbfan x config i q)"
    by (simp add: mbfan_round_keeps_def mbfan_rounds_keep_def)
qed

lemma upt_split: "i < n \<Longrightarrow> [0..<n] = [0..<i] @ i # [Suc i..<n]"
  by (metis le_add1 less_imp_le_nat plus_nat.add_0 upt_add_eq_append upt_conv_Cons le_add_diff_inverse)

text \<open>The first loop of \<^verbatim>\<open>update_outputs\<close>, seen from channel \<open>i\<close>.\<close>

lemma update_fans_channel:
  fixes x :: extern and config :: fanpico_config and state :: fanpico_state
  assumes "i < n" and "n \<le> length (fan_duty state)"
  defines "pre \<equiv> update_fans x config i (state, [])"
  defines "new \<equiv> calculate_pwm_duty x (fst pre) config i"
  defines "q \<equiv> update_fans x config n (state, [])"
  shows "fan_duty (fst q) ! i =
           (if check_for_change (fan_duty state ! i) new 0.1 then new else fan_duty state ! i)"
    and "check_for_change (fan_duty state ! i) new 0.1 \<Longrightarrow> SetPwmDutyCycle i new \<in> set (snd q)"
    and "\<not> check_for_change (fan_duty state ! i) new 0.1 \<Longrightarrow> SetPwmDutyCycle i v \<notin> set (snd q)"
proof -
  let ?f = "update_fan x config"
  have pre: "fan_rounds_keep [0..<i] (state, []) pre"
    unfolding pre_def update_fans_def by (rule fold_update_fan_keeps)
  then have old: "fan_duty (fst pre) ! i = fan_duty state ! i"
    and len: "i < length (fan_duty (fst pre))"
    using assms(1,2) by (simp_all add: fan_rounds_keep_def)
  from pre have nopre: "SetPwmDutyCycle i v \<notin> set (snd pre)" for v
    by (auto simp: fan_rounds_keep_def)
  have q: "q = fold ?f [Suc i..<n] (?f i pre)"
    unfolding q_def pre_def update_fans_def using upt_split [OF assms(1)] by simp
  have post: "fan_rounds_keep [Suc i..<n] (?f i pre) q"
    unfolding q by (rule fold_update_fan_keeps)
  then have keep: "fan_duty (fst q) ! i = fan_duty (fst (?f i pre)) ! i"
    by (simp add: fan_rounds_keep_def)
  from post obtain more where more: "snd q = snd (?f i pre) @ more"
    "\<forall>ev \<in> set more. (\<exists>l f a. ev = LogMsg l f a)
        \<or> (\<exists>j v. j \<in> set [Suc i..<n] \<and> ev = SetPwmDutyCycle j v)"
    by (auto simp: fan_rounds_keep_def)
  then have nomore: "SetPwmDutyCycle i v \<notin> set more" for v
    by auto
  show "fan_duty (fst q) ! i =
           (if check_for_change (fan_duty state ! i) new 0.1 then new else fan_duty state ! i)"
    unfolding keep using old len
    by (cases pre) (simp add: update_fan_def Let_def new_def)
  show "SetPwmDutyCycle i new \<in> set (snd q)" if "check_for_change (fan_duty state ! i) new 0.1"
    unfolding more(1) using that old
    by (cases pre) (simp add: update_fan_def Let_def new_def)
  show "SetPwmDutyCycle i v \<notin> set (snd q)" if "\<not> check_for_change (fan_duty state ! i) new 0.1"
    unfolding more(1) using that old nopre [of v] nomore [of v]
    by (cases pre) (simp add: update_fan_def Let_def new_def)
qed

text \<open>The second loop, from any starting point \<open>p\<close>, seen from channel \<open>i\<close>.\<close>

lemma update_mbfans_channel:
  fixes x :: extern and config :: fanpico_config and p :: "fanpico_state \<times> event list"
  assumes "i < n" and "n \<le> length (mbfan_freq (fst p))"
  defines "pre \<equiv> update_mbfans x config i p"
  defines "new \<equiv> calculate_tacho_freq x (fst pre) config i"
  defines "q \<equiv> update_mbfans x config n p"
  shows "mbfan_freq (fst q) ! i =
           (if check_for_change (mbfan_freq (fst p) ! i) new 0.1 then new
            else mbfan_freq (fst p) ! i)"
    and "check_for_change (mbfan_freq (fst p) ! i) new 0.1 \<Longrightarrow>
           SetTachoOutputFreq i new \<in> set (snd q)"
    and "\<not> check_for_change (mbfan_freq (fst p) ! i) new 0.1 \<Longrightarrow>
           SetTachoOutputFreq i v \<notin> set (snd p) \<Longrightarrow> SetTachoOutputFreq i v \<notin> set (snd q)"
proof -
  let ?f = "update_mbfan x config"
  have pre: "mbfan_rounds_keep [0..<i] p pre"
    unfolding pre_def update_mbfans_def by (rule fold_update_mbfan_keeps)
  then have old: "mbfan_freq (fst pre) ! i = mbfan_freq (fst p) ! i"
    and len: "i < length (mbfan_freq (fst pre))"
    using assms(1,2) by (simp_all add: mbfan_rounds_keep_def)
  from pre have nopre: "SetTachoOutputFreq i v \<notin> set (snd p) \<Longrightarrow>
      SetTachoOutputFreq i v \<notin> set (snd pre)" for v
    by (auto simp: mbfan_rounds_keep_def)
  have q: "q = fold ?f [Suc i..<n] (?f i pre)"
    unfolding q_def pre_def update_mbfans_def using upt_split [OF assms(1)] by simp
  have post: "mbfan_rounds_keep [Suc i..<n] (?f i pre) q"
    unfolding q by (rule fold_update_mbfan_keeps)
  then have keep: "mbfan_freq (fst q) ! i = mbfan_freq (fst (?f i pre)) ! i"
    by (simp add: mbfan_rounds_keep_def)
  from post obtain more where more: "snd q = snd (?f i pre) @ more"
    "\<forall>ev \<in> set more. (\<exists>l f a. ev = LogMsg l f a)
        \<or> (\<exists>j v. j \<in> set [Suc i..<n] \<and> ev = SetTachoOutputFreq j v)"
    by (auto simp: mbfan_rounds_keep_def)
  then have nomore: "SetTachoOutputFreq i v \<notin> set more" for v
    by auto
  show "mbfan_freq (fst q) ! i =
           (if check_for_change (mbfan_freq (fst p) ! i) new 0.1 then new
            else mbfan_freq (fst p) ! i)"
    unfolding keep using old len
    by (cases pre) (simp add: update_mbfan_def Let_def new_def)
  show "SetTachoOutputFreq i new \<in> set (snd q)"
    if "check_for_change (mbfan_freq (fst p) ! i) new 0.1"
    unfolding more(1) using that old
    by (cases pre) (simp add: update_mbfan_def Let_def new_def)
  show "SetTachoOutputFreq i v \<notin> set (snd q)"
    if "\<not> check_for_change (mbfan_freq (fst p) ! i) new 0.1"
      and "SetTachoOutputFreq i v \<notin> set (snd p)"
    unfolding more(1) using that(1) old nopre [OF that(2)] nomore [of v]
    by (cases pre) (simp add: update_mbfan_def Let_def new_def)
qed

lemma update_outputs_fan:
  fixes x :: extern and config :: fanpico_config and state :: fanpico_state
  assumes "i < FAN_COUNT b" and "FAN_COUNT b \<le> length (fan_duty state)"
  defines "new \<equiv> calculate_pwm_duty x (fst (update_fans x config i (state, []))) config i"
  defines "q \<equiv> update_outputs b x config state"
  shows "fan_duty (fst q) ! i =
           (if check_for_change (fan_duty state ! i) new 0.1 then new else fan_duty state ! i)"
    and "check_for_change (fan_duty state ! i) new 0.1 \<Longrightarrow> SetPwmDutyCycle i new \<in> set (snd q)"
    and "\<not> check_for_change (fan_duty state ! i) new 0.1 \<Longrightarrow> SetPwmDutyCycle i v \<notin> set (snd q)"
proof -
  let ?p = "update_fans x config (FAN_COUNT b) (state, [])"
  have k: "mbfan_rounds_keep [0..<MBFAN_COUNT b] ?p q"
    unfolding q_def update_outputs_def update_mbfans_def by (rule fold_update_mbfan_keeps)
  then have same: "fan_duty (fst q) = fan_duty (fst ?p)"
    by (simp add: mbfan_rounds_keep_def)
  from k obtain more where more: "snd q = snd ?p @ more"
    "\<forall>ev \<in> set more. (\<exists>l f a. ev = LogMsg l f a)
        \<or> (\<exists>j v. j \<in> set [0..<MBFAN_COUNT b] \<and> ev = SetTachoOutputFreq j v)"
    by (auto simp: mbfan_rounds_keep_def)
  then have nomore: "SetPwmDutyCycle i v \<notin> set more" for v
    by auto
  note ch = update_fans_channel [OF assms(1,2), of x config, folded new_def]
  show "fan_duty (fst q) ! i =
           (if check_for_change (fan_duty state ! i) new 0.1 then new else fan_duty state ! i)"
    unfolding same by (rule ch(1))
  show "SetPwmDutyCycle i new \<in> set (snd q)" if "check_for_change (fan_duty state ! i) new 0.1"
    unfolding more(1) using ch(2) [OF that] by simp
  show "SetPwmDutyCycle i v \<notin> set (snd q)" if "\<not> check_for_change (fan_duty state ! i) new 0.1"
    unfolding more(1) using ch(3) [OF that, of v] nomore [of v] by simp
qed

lemma update_outputs_mbfan:
  fixes x :: extern and config :: fanpico_config and state :: fanpico_state
  assumes "i < MBFAN_COUNT b" and "MBFAN_COUNT b \<le> length (mbfan_freq state)"
  defines "new \<equiv> calculate_tacho_freq x
      (fst (update_mbfans x config i (update_fans x config (FAN_COUNT b) (state, [])))) config i"
  defines "q \<equiv> update_outputs b x config state"
  shows "mbfan_freq (fst q) ! i =
           (if check_for_change (mbfan_freq state ! i) new 0.1 then new else mbfan_freq state ! i)"
    and "check_for_change (mbfan_freq state ! i) new 0.1 \<Longrightarrow>
           SetTachoOutputFreq i new \<in> set (snd q)"
    and "\<not> check_for_change (mbfan_freq state ! i) new 0.1 \<Longrightarrow>
           SetTachoOutputFreq i v \<notin> set (snd q)"
proof -
  let ?p = "update_fans x config (FAN_COUNT b) (state, [])"
  have k: "fan_rounds_keep [0..<FAN_COUNT b] (state, []) ?p"
    unfolding update_fans_def by (rule fold_update_fan_keeps)
  then have same: "mbfan_freq (fst ?p) = mbfan_freq state"
    by (simp add: fan_rounds_keep_def)
  from k have none: "SetTachoOutputFreq i v \<notin> set (snd ?p)" for v
    by (auto simp: fan_rounds_keep_def)
  from assms(2) same have len: "MBFAN_COUNT b \<le> length (mbfan_freq (fst ?p))"
    by simp
  note ch = update_mbfans_channel [OF assms(1) len, of x config, folded new_def,
      unfolded same, folded update_outputs_def, folded q_def]
  show "mbfan_freq (fst q) ! i =
           (if check_for_change (mbfan_freq state ! i) new 0.1 then new else mbfan_freq state ! i)"
    by (rule ch(1))
  show "SetTachoOutputFreq i new \<in> set (snd q)"
    if "check_for_change (mbfan_freq state ! i) new 0.1"
    using ch(2) [OF that] .
  show "SetTachoOutputFreq i v \<notin> set (snd q)"
    if "\<not> check_for_change (mbfan_freq state ! i) new 0.1"
    using ch(3) [OF that none] .
qed

subsection \<open>The change gates\<close>

lemma duty_after_at:
  "i < length (mbfan_duty (st s)) \<Longrightarrow>
     duty_after e s n ! i =
       (if i < n \<and> duty_changed e s i then roundf (mbfan_pwm_duty e ! i)
        else mbfan_duty (st s) ! i)"
  by (simp add: duty_after_def)

lemma temp_after_at:
  "i < length (temp (st s)) \<Longrightarrow>
     temp_after e s n ! i =
       (if i < n \<and> temp_changed e s i then get_temperature e i else temp (st s) ! i)"
  by (simp add: temp_after_def)

lemma task_poll_pwm_channel:
  assumes "state_ok b s" and "i < MBFAN_COUNT b"
  shows "mbfan_duty (st (fst (task_poll_pwm b x e (s, c)))) ! i =
     (if fires x e s T_poll_pwm \<and> duty_changed e s i then roundf (mbfan_pwm_duty e ! i)
      else mbfan_duty (st s) ! i)"
proof -
  from assms have ok: "MBFAN_COUNT b \<le> length (mbfan_duty (st s))"
    and i: "i < length (mbfan_duty (st s))"
    by (simp_all add: state_ok_def)
  show ?thesis
    using assms(2)
    by (simp add: task_poll_pwm_closed [OF ok] duty_after_at [OF i] fires_def timer_of_def
        interval_def)
qed

lemma task_temp_channel:
  assumes "state_ok b s" and "i < SENSOR_COUNT b"
  shows "temp (st (fst (task_temp b x e (s, c)))) ! i =
     (if fires x e s T_temp \<and> temp_changed e s i then get_temperature e i
      else temp (st s) ! i)"
proof -
  from assms have ok: "SENSOR_COUNT b \<le> length (temp (st s))"
    and i: "i < length (temp (st s))"
    by (simp_all add: state_ok_def)
  show ?thesis
    using assms(2)
    by (simp add: task_temp_closed [OF ok] temp_after_at [OF i] fires_def timer_of_def
        interval_def)
qed

lemma task_change_count:
  assumes "state_ok b s"
  shows "fst (snd (task_poll_pwm b x e (s, c))) =
           c + (if fires x e s T_poll_pwm then length (duty_changes b e s) else 0)"
    and "fst (snd (task_temp b x e (s, c))) =
           c + (if fires x e s T_temp then length (temp_changes b e s) else 0)"
proof -
  from assms have ok: "MBFAN_COUNT b \<le> length (mbfan_duty (st s))"
    "SENSOR_COUNT b \<le> length (temp (st s))"
    by (simp_all add: state_ok_def)
  show "fst (snd (task_poll_pwm b x e (s, c))) =
           c + (if fires x e s T_poll_pwm then length (duty_changes b e s) else 0)"
    by (simp add: task_poll_pwm_closed [OF ok(1)] fires_def timer_of_def interval_def
        duty_changes_def)
  show "fst (snd (task_temp b x e (s, c))) =
           c + (if fires x e s T_temp then length (temp_changes b e s) else 0)"
    by (simp add: task_temp_closed [OF ok(2)] fires_def timer_of_def interval_def
        temp_changes_def)
qed

text \<open>
  C1, as amended. Each comparison uses the threshold written at its call site: 0.1 for
  the output duty cycles (\<^verbatim>\<open>fan_duty\<close>) and 0.1, not 0.5, for the output frequencies
  (\<^verbatim>\<open>mbfan_freq\<close>) in \<^verbatim>\<open>update_outputs\<close>; 0.5 for the input duty cycles (\<^verbatim>\<open>mbfan_duty\<close>,
  compared after rounding) and 0.5 for the temperatures in \<^verbatim>\<open>main\<close>. A sample whose
  delta is below that threshold leaves the state field as it was, and causes neither a
  call of the output driver for its channel nor an increment of \<^verbatim>\<open>change\<close>; a sample at
  or above it is stored (and, for an output, given to the driver).
\<close>

theorem change_gate_thresholds:
  assumes "state_ok b s"
  shows "(\<forall>i < FAN_COUNT b.
            let old = fan_duty (st s) ! i;
                new = calculate_pwm_duty x (fst (update_fans x config i (st s, []))) config i;
                q = update_outputs b x config (st s)
            in if \<bar>new - old\<bar> < 0.1
               then fan_duty (fst q) ! i = old \<and> (\<forall>v. SetPwmDutyCycle i v \<notin> set (snd q))
               else fan_duty (fst q) ! i = new \<and> SetPwmDutyCycle i new \<in> set (snd q))
       \<and> (\<forall>i < MBFAN_COUNT b.
            let old = mbfan_freq (st s) ! i;
                new = calculate_tacho_freq x
                        (fst (update_mbfans x config i
                               (update_fans x config (FAN_COUNT b) (st s, [])))) config i;
                q = update_outputs b x config (st s)
            in if \<bar>new - old\<bar> < 0.1
               then mbfan_freq (fst q) ! i = old \<and> (\<forall>v. SetTachoOutputFreq i v \<notin> set (snd q))
               else mbfan_freq (fst q) ! i = new \<and> SetTachoOutputFreq i new \<in> set (snd q))
       \<and> (\<forall>i < MBFAN_COUNT b.
            let old = mbfan_duty (st s) ! i;
                new = roundf (mbfan_pwm_duty e ! i);
                s' = fst (task_poll_pwm b x e (s, c))
            in if \<bar>new - old\<bar> < 0.5 then mbfan_duty (st s') ! i = old
               else fires x e s T_poll_pwm \<longrightarrow> mbfan_duty (st s') ! i = new)
       \<and> (\<forall>i < SENSOR_COUNT b.
            let old = temp (st s) ! i;
                new = get_temperature e i;
                s' = fst (task_temp b x e (s, c))
            in if \<bar>new - old\<bar> < 0.5 then temp (st s') ! i = old
               else fires x e s T_temp \<longrightarrow> temp (st s') ! i = new)
       \<and> fst (snd (task_poll_pwm b x e (s, c))) =
           c + (if fires x e s T_poll_pwm
                then length [i \<leftarrow> [0..<MBFAN_COUNT b].
                       0.5 \<le> \<bar>roundf (mbfan_pwm_duty e ! i) - mbfan_duty (st s) ! i\<bar>]
                else 0)
       \<and> fst (snd (task_temp b x e (s, c))) =
           c + (if fires x e s T_temp
                then length [i \<leftarrow> [0..<SENSOR_COUNT b].
                       0.5 \<le> \<bar>get_temperature e i - temp (st s) ! i\<bar>]
                else 0)"
proof -
  from assms have len: "FAN_COUNT b \<le> length (fan_duty (st s))"
    "MBFAN_COUNT b \<le> length (mbfan_freq (st s))"
    by (simp_all add: state_ok_def)
  have a: "\<forall>i < FAN_COUNT b.
            let old = fan_duty (st s) ! i;
                new = calculate_pwm_duty x (fst (update_fans x config i (st s, []))) config i;
                q = update_outputs b x config (st s)
            in if \<bar>new - old\<bar> < 0.1
               then fan_duty (fst q) ! i = old \<and> (\<forall>v. SetPwmDutyCycle i v \<notin> set (snd q))
               else fan_duty (fst q) ! i = new \<and> SetPwmDutyCycle i new \<in> set (snd q)"
    using update_outputs_fan [OF _ len(1), of _ x config]
    by (simp add: Let_def check_for_change_def not_less)
  have b: "\<forall>i < MBFAN_COUNT b.
            let old = mbfan_freq (st s) ! i;
                new = calculate_tacho_freq x
                        (fst (update_mbfans x config i
                               (update_fans x config (FAN_COUNT b) (st s, [])))) config i;
                q = update_outputs b x config (st s)
            in if \<bar>new - old\<bar> < 0.1
               then mbfan_freq (fst q) ! i = old \<and> (\<forall>v. SetTachoOutputFreq i v \<notin> set (snd q))
               else mbfan_freq (fst q) ! i = new \<and> SetTachoOutputFreq i new \<in> set (snd q)"
    using update_outputs_mbfan [OF _ len(2), of _ x config]
    by (simp add: Let_def check_for_change_def not_less)
  have c: "\<forall>i < MBFAN_COUNT b.
            let old = mbfan_duty (st s) ! i;
                new = roundf (mbfan_pwm_duty e ! i);
                s' = fst (task_poll_pwm b x e (s, c))
            in if \<bar>new - old\<bar> < 0.5 then mbfan_duty (st s') ! i = old
               else fires x e s T_poll_pwm \<longrightarrow> mbfan_duty (st s') ! i = new"
    using task_poll_pwm_channel [OF assms, of _ x e c]
    by (simp add: Let_def duty_changed_def check_for_change_def not_less)
  have d: "\<forall>i < SENSOR_COUNT b.
            let old = temp (st s) ! i;
                new = get_temperature e i;
                s' = fst (task_temp b x e (s, c))
            in if \<bar>new - old\<bar> < 0.5 then temp (st s') ! i = old
               else fires x e s T_temp \<longrightarrow> temp (st s') ! i = new"
    using task_temp_channel [OF assms, of _ x e c]
    by (simp add: Let_def temp_changed_def check_for_change_def not_less)
  from a b c d task_change_count [OF assms, of x e c] show ?thesis
    by (simp only: duty_changes_def temp_changes_def duty_changed_def temp_changed_def
        check_for_change_def simp_thms)
qed

lemma example_main_ok: "state_ok example_build example_main"
  by (simp add: state_ok_def example_build_def example_main_def example_state_def)

text \<open>The theorem of C1 on the example board: one channel of each kind.\<close>

theorem change_gate_thresholds_witness:
  "fan_duty (fst (update_outputs example_build example_extern example_config
      (st example_main))) ! 1 = 60
   \<and> mbfan_freq (fst (update_outputs example_build example_extern example_config
      (st example_main))) ! 0 = 10.2
   \<and> mbfan_duty (st (fst (task_poll_pwm example_build example_extern example_iter
      (example_main, 0)))) ! 0 = 40
   \<and> temp (st (fst (task_temp example_build example_extern example_iter
      (example_main, 0)))) ! 0 = 30"
proof -
  note t = change_gate_thresholds [OF example_main_ok, of example_extern example_config
      example_iter 0]
  have 1: "(1::nat) < FAN_COUNT example_build" and 2: "(0::nat) < MBFAN_COUNT example_build"
    and 3: "(0::nat) < SENSOR_COUNT example_build"
    by (simp_all add: example_build_def)
  from t have "fan_duty (fst (update_outputs example_build example_extern example_config
      (st example_main))) ! 1 = 60"
    using 1 by (auto simp: Let_def example_extern_def example_main_def example_state_def
        dest!: spec [where x = 1])
  moreover from t have "mbfan_freq (fst (update_outputs example_build example_extern
      example_config (st example_main))) ! 0 = 10.2"
    using 2 by (auto simp: Let_def example_extern_def example_main_def example_state_def
        dest!: spec [where x = 0])
  moreover from t have "mbfan_duty (st (fst (task_poll_pwm example_build example_extern
      example_iter (example_main, 0)))) ! 0 = 40"
    using 2 by (auto simp: Let_def example_iter_def example_main_def example_state_def
        roundf_def dest!: spec [where x = 0])
  moreover from t have "temp (st (fst (task_temp example_build example_extern
      example_iter (example_main, 0)))) ! 0 = 30"
    using 3 by (auto simp: Let_def example_iter_def example_main_def example_state_def
        dest!: spec [where x = 0])
  ultimately show ?thesis
    by blast
qed

text \<open>
  C1 as the spec has it fails for the frequencies: a new output frequency 0.2 Hz away
  from the stored one, less than 0.5, is stored and given to \<^verbatim>\<open>set_tacho_output_freq\<close>.
\<close>

theorem frequency_threshold_counterexample:
  "\<bar>calculate_tacho_freq example_extern example_state example_config 0
      - mbfan_freq example_state ! 0\<bar> < 0.5
   \<and> mbfan_freq (fst (update_outputs example_build example_extern example_config
        example_state)) ! 0 \<noteq> mbfan_freq example_state ! 0
   \<and> SetTachoOutputFreq 0 (calculate_tacho_freq example_extern example_state example_config 0)
        \<in> set (snd (update_outputs example_build example_extern example_config example_state))"
  by (simp add: update_outputs_def update_fans_def update_mbfans_def update_fan_def
      update_mbfan_def check_for_change_def example_extern_def example_state_def
      example_build_def Let_def numeral_2_eq_2)

subsection \<open>The events of one iteration\<close>

lemma task_set_outputs_closed:
  "task_set_outputs b x e change s =
     (let tp = time_passed x (t_set_outputs s) 3000 (clk e T_set_outputs);
          runs = (change \<noteq> 0 \<or> fst tp);
          s1 = (if change \<noteq> 0 then s else s\<lparr>t_set_outputs := snd tp\<rparr>)
      in ((if runs then s1\<lparr>st := fst (update_outputs b x (cfg e) (st s))\<rparr> else s1),
          (if change \<noteq> 0 then [] else [TimePassed T_set_outputs 3000])
          @ (if runs
             then [LogMsg LOG_DEBUG ''Updating output signals.'' [], UpdateOutputs]
                  @ snd (update_outputs b x (cfg e) (st s))
             else [])))"
  by (simp add: task_set_outputs_def call_update_outputs_def split_def Let_def)

lemma update_outputs_keeps:
  "mbfan_duty (fst (update_outputs b x config state)) = mbfan_duty state"
  "temp (fst (update_outputs b x config state)) = temp state"
  "fan_freq (fst (update_outputs b x config state)) = fan_freq state"
  "length (fan_duty (fst (update_outputs b x config state))) = length (fan_duty state)"
  "length (mbfan_freq (fst (update_outputs b x config state))) = length (mbfan_freq state)"
  using fold_update_fan_keeps [of "[0..<FAN_COUNT b]" "(state, [])" x config]
    fold_update_mbfan_keeps [of "[0..<MBFAN_COUNT b]"
      "update_fans x config (FAN_COUNT b) (state, [])" x config]
  by (simp_all add: update_outputs_def update_fans_def update_mbfans_def fan_rounds_keep_def
      mbfan_rounds_keep_def)

lemma update_outputs_events:
  assumes "ev \<in> set (snd (update_outputs b x config state))"
  shows "(\<exists>l f a. ev = LogMsg l f a) \<or> (\<exists>i v. ev = SetPwmDutyCycle i v)
         \<or> (\<exists>i v. ev = SetTachoOutputFreq i v)"
proof -
  let ?p = "update_fans x config (FAN_COUNT b) (state, [])"
  from fold_update_fan_keeps [of "[0..<FAN_COUNT b]" "(state, [])" x config]
  obtain new where n: "snd ?p = new"
    "\<forall>ev \<in> set new. (\<exists>l f a. ev = LogMsg l f a)
        \<or> (\<exists>i v. i \<in> set [0..<FAN_COUNT b] \<and> ev = SetPwmDutyCycle i v)"
    by (auto simp: fan_rounds_keep_def update_fans_def)
  from fold_update_mbfan_keeps [of "[0..<MBFAN_COUNT b]" ?p x config]
  obtain more where m: "snd (update_outputs b x config state) = snd ?p @ more"
    "\<forall>ev \<in> set more. (\<exists>l f a. ev = LogMsg l f a)
        \<or> (\<exists>i v. i \<in> set [0..<MBFAN_COUNT b] \<and> ev = SetTachoOutputFreq i v)"
    by (auto simp: mbfan_rounds_keep_def update_outputs_def update_mbfans_def)
  from assms n m show ?thesis
    by auto
qed

lemma filter_none: "(\<And>ev. ev \<in> set evs \<Longrightarrow> \<not> P ev) \<Longrightarrow> filter P evs = []"
  by (induction evs) simp_all

lemma update_outputs_scheduled:
  "filter scheduled (snd (update_outputs b x config state)) = []"
  by (rule filter_none) (auto dest: update_outputs_events)

lemma update_outputs_kind:
  "ev \<in> set (snd (update_outputs b x config state)) \<Longrightarrow> outputs_event ev"
  by (auto dest: update_outputs_events)

lemma duty_log_scheduled: "filter scheduled (concat (map (duty_log e s) js)) = []"
  by (induction js) (simp_all add: duty_log_def)

lemma temp_log_scheduled:
  "filter scheduled (concat (map (temp_log e s) js)) = map GetTemperature js"
  by (induction js) (simp_all add: temp_log_def)

lemma duty_log_kind: "ev \<in> set (duty_log e s j) \<Longrightarrow> sample_event ev"
  by (auto simp: duty_log_def split: if_splits)

lemma temp_log_kind: "ev \<in> set (temp_log e s j) \<Longrightarrow> sample_event ev"
  by (auto simp: temp_log_def split: if_splits)

lemmas fires_simps = fires_def timer_of_def interval_def

lemma loop_head_scheduled: "filter scheduled (snd (loop_head e s)) = []"
  by (simp add: loop_head_closed)

lemma task_network_scheduled:
  "filter scheduled (snd (task_network x e s)) =
     TimePassed T_network 1 # (if fires x e s T_network then [NetworkPoll] else [])"
  by (simp add: task_network_closed fires_simps)

lemma task_led_scheduled:
  "filter scheduled (snd (task_led b x e s)) =
     TimePassed T_led 1000
     # (if fires x e s T_led
        then (if 0 < LED_PIN b
              then [GpioPut (LED_PIN b) (next_led_state (cfg e) (led_state s))] else [])
             @ (if LIB_PICO_CYW43_ARCH b
                then [Cyw43ArchGpioPut (next_led_state (cfg e) (led_state s))] else [])
        else [])"
  by (simp add: task_led_closed fires_simps)

lemma task_display_scheduled:
  "filter scheduled (snd (task_display x e s)) =
     TimePassed T_display 2000 # (if fires x e s T_display then [DisplayStatus] else [])"
  by (simp add: task_display_closed fires_simps)

lemma task_poll_pwm_scheduled:
  "state_ok b s \<Longrightarrow>
   filter scheduled (snd (snd (task_poll_pwm b x e (s, c)))) =
     TimePassed T_poll_pwm 1500 # (if fires x e s T_poll_pwm then [GetPwmDutyCycles] else [])"
  by (simp add: task_poll_pwm_closed state_ok_def fires_simps duty_log_scheduled)

lemma task_temp_scheduled:
  "state_ok b s \<Longrightarrow>
   filter scheduled (snd (snd (task_temp b x e (s, c)))) =
     TimePassed T_temp 10000
     # (if fires x e s T_temp then map GetTemperature [0..<SENSOR_COUNT b] else [])"
  by (simp add: task_temp_closed state_ok_def fires_simps temp_log_scheduled)

lemma task_poll_tacho_scheduled:
  "filter scheduled (snd (task_poll_tacho x e s)) =
     TimePassed T_poll_tacho 2000
     # (if fires x e s T_poll_tacho then [UpdateTachoInputFreq] else [])"
  by (simp add: task_poll_tacho_closed fires_simps)

lemma sample_events_kind:
  assumes "state_ok b s" and "ev \<in> set (sample_events b x e s)"
  shows "sample_event ev"
proof -
  from assms(1) have ok: "MBFAN_COUNT b \<le> length (mbfan_duty (st s))"
    "SENSOR_COUNT b \<le> length (temp (st s))"
    by (simp_all add: state_ok_def)
  from assms(2) consider
    "ev \<in> set (snd (loop_head e s))" | "ev \<in> set (snd (task_network x e s))"
    | "ev \<in> set (snd (task_led b x e s))" | "ev \<in> set (snd (task_display x e s))"
    | "ev \<in> set (snd (snd (task_poll_pwm b x e (s, 0))))"
    | "ev \<in> set (snd (snd (task_temp b x e (s, 0))))"
    | "ev \<in> set (snd (task_poll_tacho x e s))"
    by (auto simp: sample_events_def)
  then show ?thesis
  proof cases
    case 1
    then show ?thesis by (auto simp: loop_head_closed split: if_splits)
  next
    case 2
    then show ?thesis by (auto simp: task_network_closed split: if_splits)
  next
    case 3
    then show ?thesis by (auto simp: task_led_closed split: if_splits)
  next
    case 4
    then show ?thesis by (auto simp: task_display_closed split: if_splits)
  next
    case 5
    then show ?thesis
      by (auto simp: task_poll_pwm_closed [OF ok(1)] duty_log_kind split: if_splits)
  next
    case 6
    then show ?thesis
      by (auto simp: task_temp_closed [OF ok(2)] temp_log_kind split: if_splits)
  next
    case 7
    then show ?thesis by (auto simp: task_poll_tacho_closed split: if_splits)
  qed
qed

lemma console_byte_events:
  assumes "ev \<in> set (fst (console_byte config c s))"
  shows "(\<exists>f. ev = Printf f) \<or> (\<exists>l. ev = ProcessCommand l)"
proof (cases rule: console_byte_cases [where c = c and s = s])
  case skip
  with assms show ?thesis by (simp add: console_byte_skip)
next
  case backspace
  with assms show ?thesis by (auto simp: console_byte_backspace split: if_splits)
next
  case dispatch
  with assms show ?thesis
    by (auto simp: console_byte_dispatch Let_def split: if_splits sum.splits)
next
  case store
  with assms show ?thesis
    by (auto simp: console_byte_store split: if_splits sum.splits)
qed

lemma console_byte_frame:
  assumes "console_byte config c s = (ev, Inr s')"
  shows "st s' = st s"
proof (cases rule: console_byte_cases [where c = c and s = s])
  case skip
  with assms show ?thesis by (simp add: console_byte_skip)
next
  case backspace
  with assms show ?thesis by (auto simp: console_byte_backspace split: if_splits)
next
  case dispatch
  with assms show ?thesis
    by (auto simp: console_byte_dispatch Let_def split: if_splits sum.splits)
next
  case store
  with assms show ?thesis
    by (auto simp: console_byte_store split: if_splits sum.splits)
qed

lemma console_feed_frame:
  "console_feed config cs s = (ev, Inr s') \<Longrightarrow> st s' = st s"
proof (induction cs arbitrary: s ev)
  case Nil
  then show ?case by simp
next
  case (Cons c cs)
  obtain ev1 r1 where b: "console_byte config c s = (ev1, r1)"
    by (cases "console_byte config c s")
  show ?case
  proof (cases r1)
    case (Inl f)
    with b Cons.prems show ?thesis by simp
  next
    case (Inr s1)
    obtain ev2 r2 where f: "console_feed config cs s1 = (ev2, r2)"
      by (cases "console_feed config cs s1")
    from b Inr f Cons.prems have "r2 = Inr s'"
      by simp
    with Cons.IH [of s1 ev2] f console_byte_frame [of config c s ev1 s1] b Inr
    show ?thesis by simp
  qed
qed

lemma console_feed_kind:
  "ev \<in> set (fst (console_feed config cs s)) \<Longrightarrow> console_event ev"
proof (induction cs arbitrary: s)
  case Nil
  then show ?case by simp
next
  case (Cons c cs)
  obtain ev1 r1 where b: "console_byte config c s = (ev1, r1)"
    by (cases "console_byte config c s")
  have first: "ev \<in> set ev1 \<Longrightarrow> console_event ev"
    using console_byte_events [of ev config c s] b by auto
  show ?case
  proof (cases r1)
    case (Inl f)
    with b Cons.prems first show ?thesis by auto
  next
    case (Inr s1)
    obtain ev2 r2 where f: "console_feed config cs s1 = (ev2, r2)"
      by (cases "console_feed config cs s1")
    from b Inr f Cons.prems have "ev = GetcharTimeoutUs 0 \<or> ev \<in> set ev1 \<or> ev \<in> set ev2"
      by auto
    with first Cons.IH [of s1] f show ?thesis by auto
  qed
qed

lemma console_feed_scheduled:
  "console_feed config cs s = (ev, Inr s') \<Longrightarrow>
     filter scheduled ev = replicate (length cs) (GetcharTimeoutUs 0)"
proof (induction cs arbitrary: s ev)
  case Nil
  then show ?case by simp
next
  case (Cons c cs)
  obtain ev1 r1 where b: "console_byte config c s = (ev1, r1)"
    by (cases "console_byte config c s")
  have first: "filter scheduled ev1 = []"
  proof (rule filter_none)
    fix ev
    assume "ev \<in> set ev1"
    with console_byte_events [of ev config c s] b show "\<not> scheduled ev"
      by auto
  qed
  show ?case
  proof (cases r1)
    case (Inl f)
    with b Cons.prems show ?thesis by simp
  next
    case (Inr s1)
    obtain ev2 r2 where f: "console_feed config cs s1 = (ev2, r2)"
      by (cases "console_feed config cs s1")
    from b Inr f Cons.prems have "r2 = Inr s'" and "ev = GetcharTimeoutUs 0 # ev1 @ ev2"
      by simp_all
    with Cons.IH [of s1 ev2] f first show ?thesis by simp
  qed
qed

lemma console_pump_kind:
  "ev \<in> set (fst (console_pump config cs s)) \<Longrightarrow> console_event ev"
  using console_feed_kind [of ev config cs s]
  by (auto simp: console_pump_def split: prod.splits sum.splits)

lemma iteration_events:
  assumes "state_ok b s"
  shows "fst (iteration b x e s) =
     sample_events b x e s @ outputs_events b x e s @ console_events b x e s
     @ (case snd (iteration b x e s) of Inl f \<Rightarrow> []
        | Inr s' \<Rightarrow> if WATCHDOG_ENABLED b then [WatchdogUpdate] else [])"
proof -
  obtain s6 change evs where t: "sample_tasks b x e s = (s6, change, evs)"
    by (cases "sample_tasks b x e s")
  with sample_tasks_change [OF assms, of x e] sample_tasks_events [OF assms, of x e]
  have c: "change = changes b x e s" and ev: "evs = sample_events b x e s"
    by simp_all
  obtain s7 ev7 where o: "task_set_outputs b x e change s6 = (s7, ev7)"
    by (cases "task_set_outputs b x e change s6")
  obtain ev8 r8 where p: "console_pump (cfg e) (rx e) s7 = (ev8, r8)"
    by (cases "console_pump (cfg e) (rx e) s7")
  have sch: "sched_tasks b x e s = (s7, evs @ ev7)"
    by (simp add: sched_tasks_def t o)
  show ?thesis
    using t c ev o p
    by (cases r8) (simp_all add: iteration_def sch outputs_events_def console_events_def)
qed

lemma outputs_events_closed:
  assumes "state_ok b s"
  shows "outputs_events b x e s =
     (if changes b x e s \<noteq> 0 then [] else [TimePassed T_set_outputs 3000])
     @ (if changes b x e s \<noteq> 0 \<or> fires x e s T_set_outputs
        then [LogMsg LOG_DEBUG ''Updating output signals.'' [], UpdateOutputs]
             @ snd (update_outputs b x (cfg e) (st (fst (sample_tasks b x e s))))
        else [])"
proof (cases "changes b x e s = 0")
  case True
  then have "\<not> (fires x e s T_poll_pwm \<and> duty_changes b e s \<noteq> [])"
    by (auto simp: changes_def)
  then have "t_set_outputs (fst (sample_tasks b x e s)) = t_set_outputs s"
    using sample_tasks_state(3) [OF assms, of x e] by (auto split: if_splits)
  with True show ?thesis
    by (simp add: outputs_events_def task_set_outputs_closed Let_def fires_simps)
next
  case False
  then show ?thesis
    by (simp add: outputs_events_def task_set_outputs_closed Let_def)
qed

lemma outputs_events_kind:
  assumes "state_ok b s" and "ev \<in> set (outputs_events b x e s)"
  shows "outputs_event ev"
  using assms(2) update_outputs_kind [of ev b x "cfg e" "st (fst (sample_tasks b x e s))"]
  by (auto simp: outputs_events_closed [OF assms(1)] split: if_splits)

lemma console_events_kind: "ev \<in> set (console_events b x e s) \<Longrightarrow> console_event ev"
  by (simp add: console_events_def console_pump_kind)

lemma sample_events_scheduled:
  assumes "state_ok b s"
  shows "filter scheduled (sample_events b x e s) =
     TimePassed T_network 1 # (if fires x e s T_network then [NetworkPoll] else [])
     @ TimePassed T_led 1000
       # (if fires x e s T_led
          then (if 0 < LED_PIN b
                then [GpioPut (LED_PIN b) (next_led_state (cfg e) (led_state s))] else [])
               @ (if LIB_PICO_CYW43_ARCH b
                  then [Cyw43ArchGpioPut (next_led_state (cfg e) (led_state s))] else [])
          else [])
     @ TimePassed T_display 2000 # (if fires x e s T_display then [DisplayStatus] else [])
     @ TimePassed T_poll_pwm 1500 # (if fires x e s T_poll_pwm then [GetPwmDutyCycles] else [])
     @ TimePassed T_temp 10000
       # (if fires x e s T_temp then map GetTemperature [0..<SENSOR_COUNT b] else [])
     @ TimePassed T_poll_tacho 2000
       # (if fires x e s T_poll_tacho then [UpdateTachoInputFreq] else [])"
  unfolding sample_events_def filter_append
  by (simp only: loop_head_scheduled task_network_scheduled task_led_scheduled
      task_display_scheduled task_poll_pwm_scheduled [OF assms]
      task_temp_scheduled [OF assms] task_poll_tacho_scheduled append_Nil append_Cons)

lemma outputs_events_scheduled:
  assumes "state_ok b s"
  shows "filter scheduled (outputs_events b x e s) =
     (if changes b x e s \<noteq> 0 then [UpdateOutputs]
      else TimePassed T_set_outputs 3000
           # (if fires x e s T_set_outputs then [UpdateOutputs] else []))"
  by (simp add: outputs_events_closed [OF assms] update_outputs_scheduled)

lemma iteration_completes:
  assumes "snd (iteration b x e s) = Inr s'"
  shows "\<exists>ev. console_feed (cfg e) (rx e) (fst (sched_tasks b x e s)) = (ev, Inr s')
           \<and> console_pump (cfg e) (rx e) (fst (sched_tasks b x e s))
               = (ev @ [GetcharTimeoutUs 0], Inr s')"
proof -
  obtain s7 evs where t: "sched_tasks b x e s = (s7, evs)"
    by (cases "sched_tasks b x e s")
  obtain ev r where f: "console_feed (cfg e) (rx e) s7 = (ev, r)"
    by (cases "console_feed (cfg e) (rx e) s7")
  from assms t f show ?thesis
    by (cases r) (simp_all add: iteration_def console_pump_def)
qed

lemma console_events_scheduled:
  assumes "snd (iteration b x e s) = Inr s'"
  shows "filter scheduled (console_events b x e s) =
     replicate (length (rx e) + 1) (GetcharTimeoutUs 0)"
proof -
  from iteration_completes [OF assms] obtain ev where
    f: "console_feed (cfg e) (rx e) (fst (sched_tasks b x e s)) = (ev, Inr s')"
    and p: "console_pump (cfg e) (rx e) (fst (sched_tasks b x e s))
               = (ev @ [GetcharTimeoutUs 0], Inr s')"
    by blast
  from console_feed_scheduled [OF f] p show ?thesis
    by (simp add: console_events_def replicate_append_same)
qed

text \<open>
  C6. An iteration that runs to its end checks the seven timers in the order network,
  LED, display, duty-cycle sampling, temperature, frequency computation, output update,
  with the intervals 1, 1000, 2000, 1500, 10000, 2000 and 3000 ms (the last check is
  skipped when \<^verbatim>\<open>change\<close> is set, and the update runs); the work of a task follows its
  own check and comes before the next one; then the console is read until it reports a
  timeout, and the watchdog refresh is the last event.
\<close>

theorem iteration_schedule:
  assumes "state_ok b s" and "WATCHDOG_ENABLED b" and "snd (iteration b x e s) = Inr s'"
  shows "filter scheduled (fst (iteration b x e s)) = schedule b x e s"
  unfolding iteration_events [OF assms(1)] filter_append
    sample_events_scheduled [OF assms(1)] outputs_events_scheduled [OF assms(1)]
    console_events_scheduled [OF assms(3)]
  using assms(2,3) by (simp add: schedule_def)

lemma iteration_no_input:
  "rx e = [] \<Longrightarrow> snd (iteration b x e s) = Inr (fst (sched_tasks b x e s))"
  by (simp add: iteration_def console_pump_def split_def Let_def)

lemmas example_defs = example_build_def example_boot_in_def example_config_def
  example_extern_def example_state_def example_main_def example_iter_def example_iter3_def

lemmas eval_defs = fires_def timer_of_def interval_def changes_def duty_changes_def
  temp_changes_def duty_changed_def temp_changed_def check_for_change_def roundf_def
  time_passed_spec_def boot_def next_led_state_def

text \<open>The theorem of C6 on the example board: every timer has run out, one duty cycle changed.\<close>

theorem iteration_schedule_witness:
  "filter scheduled (fst (iteration example_build example_extern example_iter example_main)) =
     [TimePassed T_network 1, NetworkPoll, TimePassed T_led 1000, GpioPut 25 1,
      TimePassed T_display 2000, DisplayStatus, TimePassed T_poll_pwm 1500, GetPwmDutyCycles,
      TimePassed T_temp 10000, GetTemperature 0, TimePassed T_poll_tacho 2000,
      UpdateTachoInputFreq, UpdateOutputs, GetcharTimeoutUs 0, WatchdogUpdate]"
proof -
  have w: "WATCHDOG_ENABLED example_build"
    by (simp add: example_build_def)
  have r: "rx example_iter = []"
    by (simp add: example_iter_def)
  show ?thesis
    unfolding iteration_schedule [OF example_main_ok w iteration_no_input [OF r]]
    by (simp add: schedule_def example_defs eval_defs numeral_2_eq_2)
qed

lemma update_count:
  assumes "state_ok b s"
  shows "filter (\<lambda>ev. ev = UpdateOutputs) (fst (iteration b x e s)) =
     (if changes b x e s \<noteq> 0 \<or> fires x e s T_set_outputs then [UpdateOutputs] else [])"
proof -
  have a: "filter (\<lambda>ev. ev = UpdateOutputs) (sample_events b x e s) = []"
    by (rule filter_none) (auto dest: sample_events_kind [OF assms])
  have c: "filter (\<lambda>ev. ev = UpdateOutputs) (console_events b x e s) = []"
    by (rule filter_none) (auto dest: console_events_kind)
  have u: "filter (\<lambda>ev. ev = UpdateOutputs)
      (snd (update_outputs b x (cfg e) (st (fst (sample_tasks b x e s))))) = []"
    by (rule filter_none) (auto dest: update_outputs_events)
  have o: "filter (\<lambda>ev. ev = UpdateOutputs) (outputs_events b x e s) =
      (if changes b x e s \<noteq> 0 \<or> fires x e s T_set_outputs then [UpdateOutputs] else [])"
    by (simp add: outputs_events_closed [OF assms] u)
  show ?thesis
    unfolding iteration_events [OF assms] filter_append a c o
    by (simp split: sum.splits)
qed

text \<open>
  C4. \<open>changes\<close> is the value of \<^verbatim>\<open>change\<close> at line 330: the number of channels and
  sensors whose sample passed its gate in this iteration. Whatever that number is, three
  or any other above zero, the iteration calls \<^verbatim>\<open>update_outputs\<close> exactly once.
\<close>

theorem one_update_per_iteration:
  assumes "state_ok b s" and "0 < changes b x e s"
  shows "fst (snd (sample_tasks b x e s)) = changes b x e s
         \<and> length (filter (\<lambda>ev. ev = UpdateOutputs) (fst (iteration b x e s))) = 1"
  using assms(2) by (simp add: update_count [OF assms(1)] sample_tasks_change [OF assms(1)])

text \<open>The theorem of C4 where both duty cycles and the temperature change: three changes.\<close>

theorem one_update_per_iteration_witness:
  "changes example_build example_extern example_iter3 example_main = 3
   \<and> length (filter (\<lambda>ev. ev = UpdateOutputs)
        (fst (iteration example_build example_extern example_iter3 example_main))) = 1"
proof -
  have c: "changes example_build example_extern example_iter3 example_main = 3"
    by (simp add: example_defs eval_defs numeral_2_eq_2)
  with one_update_per_iteration [OF example_main_ok, of example_extern example_iter3]
  show ?thesis
    by simp
qed

lemma filter_upt_nonempty: "(filter P [0..<n] \<noteq> []) = (\<exists>i<n. P i)"
  by (auto simp: filter_empty_conv)

lemma changes_positive:
  "(0 < changes b x e s) =
     (fires x e s T_poll_pwm
        \<and> (\<exists>i<MBFAN_COUNT b.
              check_for_change (mbfan_duty (st s) ! i) (roundf (mbfan_pwm_duty e ! i)) 0.5)
      \<or> fires x e s T_temp
        \<and> (\<exists>i<SENSOR_COUNT b. check_for_change (temp (st s) ! i) (get_temperature e i) 0.5))"
  using filter_upt_nonempty [of "duty_changed e s" "MBFAN_COUNT b"]
    filter_upt_nonempty [of "temp_changed e s" "SENSOR_COUNT b"]
  by (auto simp: changes_def duty_changes_def temp_changes_def duty_changed_def
      temp_changed_def)

text \<open>
  C5. \<^verbatim>\<open>update_outputs\<close> is called in an iteration exactly when \<^verbatim>\<open>change\<close> is not zero,
  that is when a duty-cycle or temperature sample taken in this iteration passed its
  gate, or when \<^verbatim>\<open>time_passed\<close> with 3000 ms is true. The sampling tasks come first: the
  events of the iteration are those of the sampling tasks, without any call of
  \<^verbatim>\<open>update_outputs\<close>, followed by the rest, without any sampling.
\<close>

theorem update_iff_dirty_or_fallback:
  assumes "state_ok b s"
  shows "(UpdateOutputs \<in> set (fst (iteration b x e s))) =
           (fst (snd (sample_tasks b x e s)) \<noteq> 0 \<or> fires x e s T_set_outputs)
       \<and> (fst (snd (sample_tasks b x e s)) \<noteq> 0) =
           (fires x e s T_poll_pwm
              \<and> (\<exists>i<MBFAN_COUNT b.
                    check_for_change (mbfan_duty (st s) ! i) (roundf (mbfan_pwm_duty e ! i)) 0.5)
            \<or> fires x e s T_temp
              \<and> (\<exists>i<SENSOR_COUNT b.
                    check_for_change (temp (st s) ! i) (get_temperature e i) 0.5))
       \<and> (\<exists>post. fst (iteration b x e s) = snd (snd (sample_tasks b x e s)) @ post
             \<and> UpdateOutputs \<notin> set (snd (snd (sample_tasks b x e s)))
             \<and> GetPwmDutyCycles \<notin> set post \<and> (\<forall>i. GetTemperature i \<notin> set post))"
proof -
  have "(UpdateOutputs \<in> set (fst (iteration b x e s))) =
      (filter (\<lambda>ev. ev = UpdateOutputs) (fst (iteration b x e s)) \<noteq> [])"
    by (auto simp: filter_empty_conv)
  then have 1: "(UpdateOutputs \<in> set (fst (iteration b x e s))) =
      (fst (snd (sample_tasks b x e s)) \<noteq> 0 \<or> fires x e s T_set_outputs)"
    by (simp add: update_count [OF assms] sample_tasks_change [OF assms])
  have 2: "(fst (snd (sample_tasks b x e s)) \<noteq> 0) =
           (fires x e s T_poll_pwm
              \<and> (\<exists>i<MBFAN_COUNT b.
                    check_for_change (mbfan_duty (st s) ! i) (roundf (mbfan_pwm_duty e ! i)) 0.5)
            \<or> fires x e s T_temp
              \<and> (\<exists>i<SENSOR_COUNT b.
                    check_for_change (temp (st s) ! i) (get_temperature e i) 0.5))"
    using changes_positive [of b x e s] by (simp add: sample_tasks_change [OF assms])
  let ?post = "outputs_events b x e s @ console_events b x e s
     @ (case snd (iteration b x e s) of Inl f \<Rightarrow> []
        | Inr s' \<Rightarrow> if WATCHDOG_ENABLED b then [WatchdogUpdate] else [])"
  have post: "outputs_event ev \<or> console_event ev \<or> ev = WatchdogUpdate" if "ev \<in> set ?post" for ev
    using that outputs_events_kind [OF assms, of ev x e] console_events_kind [of ev b x e s]
    by (auto split: sum.splits if_splits)
  have "fst (iteration b x e s) = snd (snd (sample_tasks b x e s)) @ ?post"
    using iteration_events [OF assms, of x e] by (simp add: sample_tasks_events [OF assms])
  moreover have "UpdateOutputs \<notin> set (snd (snd (sample_tasks b x e s)))"
    using sample_events_kind [OF assms, of UpdateOutputs x e]
    by (auto simp: sample_tasks_events [OF assms])
  moreover have "GetPwmDutyCycles \<notin> set ?post"
    using post [of GetPwmDutyCycles] by auto
  moreover have "\<forall>i. GetTemperature i \<notin> set ?post"
    using post by fastforce
  ultimately have 3: "\<exists>post. fst (iteration b x e s) = snd (snd (sample_tasks b x e s)) @ post
             \<and> UpdateOutputs \<notin> set (snd (snd (sample_tasks b x e s)))
             \<and> GetPwmDutyCycles \<notin> set post \<and> (\<forall>i. GetTemperature i \<notin> set post)"
    by blast
  from 1 2 3 show ?thesis
    by blast
qed

text \<open>
  The theorem of C5 on the example board, in an iteration where a duty cycle changes:
  the update runs.
\<close>

theorem update_iff_dirty_or_fallback_witness:
  "fst (snd (sample_tasks example_build example_extern example_iter example_main)) \<noteq> 0
   \<and> UpdateOutputs \<in> set (fst (iteration example_build example_extern example_iter example_main))"
proof -
  have "fires example_extern example_iter example_main T_poll_pwm"
    by (simp add: example_defs eval_defs)
  moreover have "(1::nat) < MBFAN_COUNT example_build
      \<and> check_for_change (mbfan_duty (st example_main) ! 1)
          (roundf (mbfan_pwm_duty example_iter ! 1)) 0.5"
    by (simp add: example_defs eval_defs)
  ultimately show ?thesis
    using update_iff_dirty_or_fallback [OF example_main_ok, of example_extern example_iter]
    by blast
qed

subsection \<open>From boot through the iterations\<close>

lemma clear_state_shape:
  "length (mbfan_duty (clear_state b s)) = length (mbfan_duty s)
   \<and> length (mbfan_freq (clear_state b s)) = length (mbfan_freq s)
   \<and> length (fan_duty (clear_state b s)) = length (fan_duty s)
   \<and> length (temp (clear_state b s)) = length (temp s)
   \<and> set (mbfan_duty (clear_state b s)) \<subseteq> insert 0 (set (mbfan_duty s))"
proof -
  let ?I = "\<lambda>t. length (mbfan_duty t) = length (mbfan_duty s)
   \<and> length (mbfan_freq t) = length (mbfan_freq s)
   \<and> length (fan_duty t) = length (fan_duty s)
   \<and> length (temp t) = length (temp s)
   \<and> set (mbfan_duty t) \<subseteq> insert 0 (set (mbfan_duty s))"
  let ?f1 = "\<lambda>i s. s\<lparr>mbfan_duty := (mbfan_duty s)[i := 0], mbfan_freq := (mbfan_freq s)[i := 0]\<rparr>"
  let ?f2 = "\<lambda>i s. s\<lparr>fan_duty := (fan_duty s)[i := 0], fan_freq := (fan_freq s)[i := 0]\<rparr>"
  let ?f3 = "\<lambda>i s. s\<lparr>temp := (temp s)[i := 0]\<rparr>"
  have step1: "?I (?f1 i t)" if "?I t" for i and t :: fanpico_state
  proof -
    have "set ((mbfan_duty t)[i := 0]) \<subseteq> insert 0 (set (mbfan_duty t))"
      by (rule set_update_subset_insert)
    with that show ?thesis by auto
  qed
  have 1: "?I (fold ?f1 [0..<MBFAN_MAX_COUNT b] s)"
  proof (rule fold_invariant [where I = ?I])
    show "?I s" by auto
  next
    fix i and p :: fanpico_state
    assume "?I p"
    then show "?I (?f1 i p)" by (rule step1)
  qed
  have 2: "?I (fold ?f2 [0..<FAN_MAX_COUNT b] (fold ?f1 [0..<MBFAN_MAX_COUNT b] s))"
  proof (rule fold_invariant [where I = ?I])
    show "?I (fold ?f1 [0..<MBFAN_MAX_COUNT b] s)" by (rule 1)
  next
    fix i and p :: fanpico_state
    assume "?I p"
    then show "?I (?f2 i p)" by simp
  qed
  have 3: "?I (fold ?f3 [0..<SENSOR_MAX_COUNT b]
      (fold ?f2 [0..<FAN_MAX_COUNT b] (fold ?f1 [0..<MBFAN_MAX_COUNT b] s)))"
  proof (rule fold_invariant [where I = ?I])
    show "?I (fold ?f2 [0..<FAN_MAX_COUNT b] (fold ?f1 [0..<MBFAN_MAX_COUNT b] s))" by (rule 2)
  next
    fix i and p :: fanpico_state
    assume "?I p"
    then show "?I (?f3 i p)" by simp
  qed
  then show ?thesis
    by (simp add: clear_state_def Let_def)
qed

lemma boot_state:
  shows "build_ok b \<Longrightarrow> state_ok b (snd (boot b bi))"
    and "duty_integral (snd (boot b bi))"
    and "console_inv (snd (boot b bi))"
proof -
  note c = clear_state_shape [of b "system_state b"]
  show "state_ok b (snd (boot b bi))" if "build_ok b"
    using that c by (simp add: state_ok_def build_ok_def boot_def system_state_def)
  have "set (mbfan_duty (clear_state b (system_state b))) \<subseteq> {0}"
    using c by (auto simp: system_state_def)
  then show "duty_integral (snd (boot b bi))"
    by (auto simp: duty_integral_def boot_def)
  show "console_inv (snd (boot b bi))"
    by (simp add: console_inv_def boot_def)
qed

lemma roundf_integral: "roundf v \<in> \<int>"
  by (simp add: roundf_def)

lemma duty_after_integral:
  assumes "duty_integral s" and "v \<in> set (duty_after e s n)"
  shows "v \<in> \<int>"
proof -
  from assms(2) obtain j where "j < length (mbfan_duty (st s))"
    and "v = (if j < n \<and> duty_changed e s j then roundf (mbfan_pwm_duty e ! j)
              else mbfan_duty (st s) ! j)"
    by (auto simp: duty_after_def)
  with assms(1) show ?thesis
    by (auto simp: duty_integral_def roundf_integral)
qed

lemma sched_tasks_state:
  assumes "state_ok b s"
  shows "input_buf (fst (sched_tasks b x e s)) = input_buf s"
    and "i_ptr (fst (sched_tasks b x e s)) = i_ptr s"
    and "mbfan_duty (st (fst (sched_tasks b x e s))) =
           (if fires x e s T_poll_pwm then duty_after e s (MBFAN_COUNT b)
            else mbfan_duty (st s))"
    and "length (mbfan_freq (st (fst (sched_tasks b x e s)))) = length (mbfan_freq (st s))"
    and "length (fan_duty (st (fst (sched_tasks b x e s)))) = length (fan_duty (st s))"
    and "length (temp (st (fst (sched_tasks b x e s)))) = length (temp (st s))"
proof -
  obtain s6 change evs where t: "sample_tasks b x e s = (s6, change, evs)"
    by (cases "sample_tasks b x e s")
  note s6 = sample_tasks_state [OF assms, of x e, unfolded t fst_conv]
  have f: "fst (sched_tasks b x e s) = fst (task_set_outputs b x e change s6)"
    by (simp add: sched_tasks_def t split_def Let_def)
  show "input_buf (fst (sched_tasks b x e s)) = input_buf s"
    unfolding f by (simp add: task_set_outputs_closed Let_def s6)
  show "i_ptr (fst (sched_tasks b x e s)) = i_ptr s"
    unfolding f by (simp add: task_set_outputs_closed Let_def s6)
  show "mbfan_duty (st (fst (sched_tasks b x e s))) =
           (if fires x e s T_poll_pwm then duty_after e s (MBFAN_COUNT b)
            else mbfan_duty (st s))"
    unfolding f by (simp add: task_set_outputs_closed Let_def s6 update_outputs_keeps)
  show "length (mbfan_freq (st (fst (sched_tasks b x e s)))) = length (mbfan_freq (st s))"
    unfolding f by (simp add: task_set_outputs_closed Let_def s6 update_outputs_keeps)
  show "length (fan_duty (st (fst (sched_tasks b x e s)))) = length (fan_duty (st s))"
    unfolding f by (simp add: task_set_outputs_closed Let_def s6 update_outputs_keeps)
  show "length (temp (st (fst (sched_tasks b x e s)))) = length (temp (st s))"
    unfolding f
    by (simp add: task_set_outputs_closed Let_def s6 update_outputs_keeps temp_after_def)
qed

lemma loop_inv_iteration:
  assumes "loop_inv b s" and "snd (iteration b x e s) = Inr s'"
  shows "loop_inv b s'"
proof -
  from assms(1) have ok: "state_ok b s" and con: "console_inv s" and int: "duty_integral s"
    by (simp_all add: loop_inv_def)
  let ?s7 = "fst (sched_tasks b x e s)"
  note s7 = sched_tasks_state [OF ok, of x e]
  from iteration_completes [OF assms(2)] obtain ev where
    f: "console_feed (cfg e) (rx e) ?s7 = (ev, Inr s')"
    by blast
  have st: "st s' = st ?s7"
    by (rule console_feed_frame [OF f])
  have "console_inv ?s7"
    using con by (simp add: console_inv_def s7)
  then have 1: "console_inv s'"
    by (rule console_feed_inv [OF _ f])
  have 2: "state_ok b s'"
    using ok by (simp add: state_ok_def st s7 duty_after_def)
  have 3: "duty_integral s'"
    using int duty_after_integral [OF int, of _ e "MBFAN_COUNT b"]
    by (auto simp: duty_integral_def st s7 split: if_splits)
  from 1 2 3 show ?thesis
    by (simp add: loop_inv_def)
qed

lemma run_invariant:
  assumes "\<And>e s s'. I s \<Longrightarrow> snd (iteration b x e s) = Inr s' \<Longrightarrow> I s'"
    and "I s" and "snd (run b x es s) = Inr s'"
  shows "I s'"
  using assms(2,3)
proof (induction es arbitrary: s)
  case Nil
  then show ?case by simp
next
  case (Cons e es)
  obtain ev r where i: "iteration b x e s = (ev, r)"
    by (cases "iteration b x e s")
  show ?case
  proof (cases r)
    case (Inl f)
    with i Cons.prems show ?thesis by simp
  next
    case (Inr s1)
    with i Cons.prems(1) assms(1) [of s e s1] have "I s1"
      by simp
    moreover from i Inr Cons.prems(2) have "snd (run b x es s1) = Inr s'"
      by (simp add: split_def Let_def)
    ultimately show ?thesis
      by (rule Cons.IH)
  qed
qed

lemma run_events:
  assumes "\<And>e s s'. I s \<Longrightarrow> snd (iteration b x e s) = Inr s' \<Longrightarrow> I s'"
    and "\<And>e s ev. I s \<Longrightarrow> ev \<in> set (fst (iteration b x e s)) \<Longrightarrow> P ev"
    and "I s" and "ev \<in> set (fst (run b x es s))"
  shows "P ev"
  using assms(3,4)
proof (induction es arbitrary: s)
  case Nil
  then show ?case by simp
next
  case (Cons e es)
  obtain ev1 r where i: "iteration b x e s = (ev1, r)"
    by (cases "iteration b x e s")
  have first: "ev \<in> set ev1 \<Longrightarrow> P ev"
    using assms(2) [OF Cons.prems(1), of ev e] i by simp
  show ?case
  proof (cases r)
    case (Inl f)
    with i Cons.prems first show ?thesis by simp
  next
    case (Inr s1)
    with i Cons.prems(1) assms(1) [of s e s1] have 1: "I s1"
      by simp
    from i Inr Cons.prems(2) have "ev \<in> set ev1 \<or> ev \<in> set (fst (run b x es s1))"
      by (auto simp: split_def Let_def)
    with first Cons.IH [OF 1] show ?thesis
      by blast
  qed
qed

lemma main_run:
  "main b x bi es = (fst (boot b bi) @ fst (run b x es (snd (boot b bi))),
                     snd (run b x es (snd (boot b bi))))"
  by (simp add: main_def split_def Let_def)

lemma boot_inv: "build_ok b \<Longrightarrow> loop_inv b (snd (boot b bi))"
  by (simp add: loop_inv_def boot_state)

lemma main_inv:
  assumes "build_ok b" and "snd (main b x bi es) = Inr s'"
  shows "loop_inv b s'"
proof (rule run_invariant [where I = "loop_inv b"])
  show "loop_inv b (snd (boot b bi))"
    by (rule boot_inv [OF assms(1)])
  show "snd (run b x es (snd (boot b bi))) = Inr s'"
    using assms(2) by (simp add: main_run)
qed (rule loop_inv_iteration)

lemma boot_duty: "mbfan_duty (st (snd (boot b bi))) = replicate (MBFAN_MAX_COUNT b) 0"
proof (rule replicate_eqI)
  note c = clear_state_shape [of b "system_state b"]
  show "length (mbfan_duty (st (snd (boot b bi)))) = MBFAN_MAX_COUNT b"
    using c by (simp add: boot_def system_state_def)
  fix y
  assume "y \<in> set (mbfan_duty (st (snd (boot b bi))))"
  with c show "y = 0"
    by (auto simp: boot_def system_state_def)
qed

text \<open>
  C10. \<^verbatim>\<open>clear_state\<close> leaves every element of \<^verbatim>\<open>mbfan_duty\<close> at 0, and after any number of
  iterations of the loop every element is a whole number: the only store into the array
  is the one of line 298, of a value that \<^verbatim>\<open>roundf\<close> returned.
\<close>

theorem mbfan_duty_integral:
  assumes "build_ok b" and "snd (main b x bi es) = Inr s'"
  shows "mbfan_duty (st (snd (boot b bi))) = replicate (MBFAN_MAX_COUNT b) 0
         \<and> (\<forall>v \<in> set (mbfan_duty (st s')). v \<in> \<int>)"
  using main_inv [OF assms] boot_duty [of b bi]
  by (simp add: loop_inv_def duty_integral_def)

lemma example_build_ok: "build_ok example_build"
  by (simp add: build_ok_def example_build_def)

lemma main_one_quiet_iteration:
  "rx e = [] \<Longrightarrow>
     snd (main b x bi [e]) = Inr (fst (sched_tasks b x e (snd (boot b bi))))"
  using iteration_no_input [of e b x "snd (boot b bi)"]
  by (simp add: main_run split_def Let_def split: sum.splits)

text \<open>
  The theorem of C10 on the example board after one iteration that samples the duty
  cycles 40.3 and 72.6: the array holds 40 and 73.
\<close>

theorem mbfan_duty_integral_witness:
  "\<exists>s'. snd (main example_build example_extern example_boot_in [example_iter]) = Inr s'
        \<and> mbfan_duty (st s') = [40, 73] \<and> 40 \<in> (\<int> :: real set) \<and> 73 \<in> (\<int> :: real set)"
proof -
  let ?s0 = "snd (boot example_build example_boot_in)"
  let ?s' = "fst (sched_tasks example_build example_extern example_iter ?s0)"
  have r: "rx example_iter = []"
    by (simp add: example_iter_def)
  have m: "snd (main example_build example_extern example_boot_in [example_iter]) = Inr ?s'"
    by (rule main_one_quiet_iteration [OF r])
  have ok: "state_ok example_build ?s0"
    by (rule boot_state(1) [OF example_build_ok])
  have f: "fires example_extern example_iter ?s0 T_poll_pwm"
    by (simp add: example_defs eval_defs)
  have d: "mbfan_duty (st ?s0) = [0, 0]"
    by (simp add: boot_duty example_build_def numeral_2_eq_2)
  have n: "MBFAN_COUNT example_build = Suc (Suc 0)"
    by (simp add: example_build_def)
  have "mbfan_duty (st ?s') = [40, 73]"
    unfolding sched_tasks_state(3) [OF ok]
    using f by (simp add: duty_after_def d n duty_changed_def check_for_change_def roundf_def
        example_iter_def)
  with mbfan_duty_integral [OF example_build_ok m] m show ?thesis
    by auto
qed

subsection \<open>The whole run\<close>

lemma usb_wait_kind: "ev \<in> set (usb_wait k n) \<Longrightarrow> boot_event ev"
  by (induction k arbitrary: n) (auto split: if_splits)

lemma setup_board_kind: "ev \<in> set (setup_board b bi) \<Longrightarrow> boot_event ev"
  by (auto simp: setup_board_def dest: usb_wait_kind split: if_splits)

lemma boot_events:
  "\<exists>pre. fst (boot b bi) =
           pre @ (if WATCHDOG_ENABLED b then [WatchdogEnable (WATCHDOG_REBOOT_DELAY b)] else [])
         \<and> (\<forall>ev \<in> set pre. boot_event ev)"
proof -
  let ?pre = "[Call ''set_binary_info''] @ print_mallinfo_if_debug bi @ setup_board b bi
      @ print_mallinfo_if_debug bi @ [Call ''multicore_launch_core1'']"
  have "fst (boot b bi) =
      ?pre @ (if WATCHDOG_ENABLED b then [WatchdogEnable (WATCHDOG_REBOOT_DELAY b)] else [])"
    by (simp add: boot_def)
  moreover have "\<forall>ev \<in> set ?pre. boot_event ev"
    by (auto simp: print_mallinfo_if_debug_def dest: setup_board_kind split: if_splits)
  ultimately show ?thesis
    by blast
qed

lemma boot_kind:
  assumes "ev \<in> set (fst (boot b bi))"
  shows "boot_event ev \<or> (\<exists>d. ev = WatchdogEnable d)"
proof -
  from boot_events [of b bi] obtain pre where
    p: "fst (boot b bi) =
          pre @ (if WATCHDOG_ENABLED b then [WatchdogEnable (WATCHDOG_REBOOT_DELAY b)] else [])"
    and k: "\<forall>ev \<in> set pre. boot_event ev"
    by blast
  from assms have "ev \<in> set pre \<or> ev = WatchdogEnable (WATCHDOG_REBOOT_DELAY b)"
    unfolding p by (auto split: if_splits)
  with k show ?thesis
    by blast
qed

lemma iteration_kind:
  assumes "state_ok b s" and "ev \<in> set (fst (iteration b x e s))"
  shows "sample_event ev \<or> outputs_event ev \<or> console_event ev \<or> ev = WatchdogUpdate"
  using assms(2) sample_events_kind [OF assms(1), of ev x e]
    outputs_events_kind [OF assms(1), of ev x e] console_events_kind [of ev b x e s]
  unfolding iteration_events [OF assms(1)]
  by (auto split: sum.splits if_splits)

lemma iteration_lines:
  assumes "loop_inv b s" and "ProcessCommand l \<in> set (fst (iteration b x e s))"
  shows "l \<noteq> []"
proof -
  from assms(1) have ok: "state_ok b s" and con: "console_inv s"
    by (simp_all add: loop_inv_def)
  let ?s7 = "fst (sched_tasks b x e s)"
  have inv: "console_inv ?s7"
    using con by (simp add: console_inv_def sched_tasks_state [OF ok])
  from assms(2) sample_events_kind [OF ok, of "ProcessCommand l" x e]
    outputs_events_kind [OF ok, of "ProcessCommand l" x e]
  have "ProcessCommand l \<in> set (console_events b x e s)"
    unfolding iteration_events [OF ok] by (auto split: sum.splits if_splits)
  then have "ProcessCommand l \<in> set (fst (console_feed (cfg e) (rx e) ?s7))"
    by (auto simp: console_events_def console_pump_def split: prod.splits sum.splits)
  then have "l \<in> set (dispatched (fst (console_feed (cfg e) (rx e) ?s7)))"
    by (simp add: set_dispatched)
  with inv show ?thesis
    by (rule console_feed_lines)
qed

text \<open>
  C9. No line given to \<^verbatim>\<open>process_command\<close> in a run of \<^verbatim>\<open>main\<close> is empty, whatever the
  console receives; and a CR or LF that arrives while the buffer is empty is consumed
  with no dispatch, the buffer staying empty.
\<close>

theorem no_empty_command:
  assumes "build_ok b"
  shows "(\<forall>l \<in> set (dispatched (fst (main b x bi es))). l \<noteq> [])
       \<and> (i_ptr s = 0 \<and> 0 < length (input_buf s) \<and> (c = CHR 0x0A \<or> c = CHR 0x0D) \<longrightarrow>
           (\<exists>ev s'. console_byte config c s = (ev, Inr s') \<and> dispatched ev = []
              \<and> i_ptr s' = 0))"
proof
  show "\<forall>l \<in> set (dispatched (fst (main b x bi es))). l \<noteq> []"
  proof
    fix l
    assume "l \<in> set (dispatched (fst (main b x bi es)))"
    then have "ProcessCommand l \<in> set (fst (boot b bi))
        \<or> ProcessCommand l \<in> set (fst (run b x es (snd (boot b bi))))"
      by (auto simp: set_dispatched main_run)
    moreover have "ProcessCommand l \<notin> set (fst (boot b bi))"
      using boot_kind [of "ProcessCommand l" b bi] by auto
    ultimately have r: "ProcessCommand l \<in> set (fst (run b x es (snd (boot b bi))))"
      by blast
    have "\<forall>k. ProcessCommand l = ProcessCommand k \<longrightarrow> k \<noteq> []"
    proof (rule run_events [where I = "loop_inv b"
          and P = "\<lambda>ev. \<forall>k. ev = ProcessCommand k \<longrightarrow> k \<noteq> []", OF _ _ _ r])
      show "loop_inv b (snd (boot b bi))"
        by (rule boot_inv [OF assms])
    next
      fix e s s'
      assume "loop_inv b s" and "snd (iteration b x e s) = Inr s'"
      then show "loop_inv b s'"
        by (rule loop_inv_iteration)
    next
      fix e s ev
      assume "loop_inv b s" and "ev \<in> set (fst (iteration b x e s))"
      then show "\<forall>k. ev = ProcessCommand k \<longrightarrow> k \<noteq> []"
        using iteration_lines by blast
    qed
    then show "l \<noteq> []"
      by simp
  qed
next
  show "i_ptr s = 0 \<and> 0 < length (input_buf s) \<and> (c = CHR 0x0A \<or> c = CHR 0x0D) \<longrightarrow>
           (\<exists>ev s'. console_byte config c s = (ev, Inr s') \<and> dispatched ev = []
              \<and> i_ptr s' = 0)"
  proof
    assume a: "i_ptr s = 0 \<and> 0 < length (input_buf s) \<and> (c = CHR 0x0A \<or> c = CHR 0x0D)"
    then have "c = CHR 0x0A \<or> c = CHR 0x0D \<or> (ordinary c \<and> sizeof_input_buf \<le> i_ptr s)"
      by blast
    from console_byte_dispatch [OF this, of config] a
    show "\<exists>ev s'. console_byte config c s = (ev, Inr s') \<and> dispatched ev = [] \<and> i_ptr s' = 0"
      by (simp add: buf_write_def Let_def)
  qed
qed

lemma dispatched_none: "(\<And>l. ProcessCommand l \<notin> set evs) \<Longrightarrow> dispatched evs = []"
  using set_dispatched [of evs] by (cases "dispatched evs") auto

lemma run_single: "fst (run b x [e] s) = fst (iteration b x e s)"
  by (simp add: split_def Let_def split: sum.splits prod.splits)

text \<open>
  The theorem of C9 on the example board, in an iteration where the console receives
  \<open>f\<close>, \<open>a\<close>, \<open>n\<close>, \<open>DEL\<close>, \<open>x\<close>, \<open>CR\<close>: the line \<open>fax\<close> is dispatched.
\<close>

theorem no_empty_command_witness:
  "''fax'' \<in> set (dispatched (fst (main example_build example_extern example_boot_in
      [example_iter_cmd]))) \<and> ''fax'' \<noteq> []"
proof -
  let ?s0 = "snd (boot example_build example_boot_in)"
  let ?s7 = "fst (sched_tasks example_build example_extern example_iter_cmd ?s0)"
  have ok: "state_ok example_build ?s0"
    by (rule boot_state(1) [OF example_build_ok])
  have "i_ptr ?s7 = 0" and "length (input_buf ?s7) = sizeof_input_buf"
    by (simp_all add: sched_tasks_state [OF ok] boot_console)
  from console_feed_fan_x [OF this, of "CHR 0x7F" example_config]
  obtain evs s' where
    f: "console_feed example_config (rx example_iter_cmd) ?s7 = (evs, Inr s')"
    and d: "dispatched evs = [''fax'']"
    by (auto simp: example_iter_cmd_def)
  have "ProcessCommand ''fax'' \<in> set evs"
    using d set_dispatched [of evs] by auto
  then have "ProcessCommand ''fax''
      \<in> set (console_events example_build example_extern example_iter_cmd ?s0)"
    using f by (simp add: console_events_def console_pump_def example_iter_cmd_def)
  then have "ProcessCommand ''fax''
      \<in> set (fst (iteration example_build example_extern example_iter_cmd ?s0))"
    unfolding iteration_events [OF ok] by simp
  then have "ProcessCommand ''fax''
      \<in> set (fst (run example_build example_extern [example_iter_cmd] ?s0))"
    by (simp only: run_single)
  then have "''fax'' \<in> set (dispatched (fst (main example_build example_extern
      example_boot_in [example_iter_cmd])))"
    by (simp add: set_dispatched main_run del: run.simps)
  with no_empty_command [OF example_build_ok, of example_extern example_boot_in
      "[example_iter_cmd]"]
  show ?thesis
    by blast
qed

lemma boot_event_not_watchdog: "boot_event ev \<Longrightarrow> ev \<noteq> WatchdogUpdate \<and> \<not> watchdog_enable ev"
  by (cases ev) simp_all

lemma watchdog_enable_kind:
  "watchdog_enable ev \<Longrightarrow>
     \<not> sample_event ev \<and> \<not> outputs_event ev \<and> \<not> console_event ev \<and> ev \<noteq> WatchdogUpdate"
  by (cases ev) simp_all

lemma iteration_watchdog:
  assumes "state_ok b s"
  shows "filter (\<lambda>ev. ev = WatchdogUpdate) (fst (iteration b x e s)) =
     (case snd (iteration b x e s) of Inl f \<Rightarrow> []
      | Inr s' \<Rightarrow> if WATCHDOG_ENABLED b then [WatchdogUpdate] else [])"
proof -
  have a: "filter (\<lambda>ev. ev = WatchdogUpdate) (sample_events b x e s) = []"
    by (rule filter_none) (auto dest: sample_events_kind [OF assms])
  have o: "filter (\<lambda>ev. ev = WatchdogUpdate) (outputs_events b x e s) = []"
    by (rule filter_none) (auto dest: outputs_events_kind [OF assms])
  have c: "filter (\<lambda>ev. ev = WatchdogUpdate) (console_events b x e s) = []"
    by (rule filter_none) (auto dest: console_events_kind)
  show ?thesis
    unfolding iteration_events [OF assms] filter_append a o c
    by (simp split: sum.splits)
qed

lemma iteration_last:
  assumes "state_ok b s" and "WATCHDOG_ENABLED b" and "snd (iteration b x e s) = Inr t"
  shows "\<exists>pre. fst (iteration b x e s) = pre @ [WatchdogUpdate] \<and> WatchdogUpdate \<notin> set pre"
proof -
  let ?pre = "sample_events b x e s @ outputs_events b x e s @ console_events b x e s"
  have "fst (iteration b x e s) = ?pre @ [WatchdogUpdate]"
    using iteration_events [OF assms(1), of x e] assms(2,3) by simp
  moreover have "WatchdogUpdate \<notin> set ?pre"
    using sample_events_kind [OF assms(1), of WatchdogUpdate x e]
      outputs_events_kind [OF assms(1), of WatchdogUpdate x e]
      console_events_kind [of WatchdogUpdate b x e s]
    by auto
  ultimately show ?thesis
    by blast
qed

lemma run_watchdog:
  assumes "WATCHDOG_ENABLED b"
  shows "loop_inv b s \<Longrightarrow> snd (run b x es s) = Inr s' \<Longrightarrow>
     filter (\<lambda>ev. ev = WatchdogUpdate) (fst (run b x es s)) =
       replicate (length es) WatchdogUpdate"
proof (induction es arbitrary: s)
  case Nil
  then show ?case by simp
next
  case (Cons e es)
  obtain ev r where i: "iteration b x e s = (ev, r)"
    by (cases "iteration b x e s")
  from Cons.prems(1) have ok: "state_ok b s"
    by (simp add: loop_inv_def)
  show ?case
  proof (cases r)
    case (Inl f)
    with i Cons.prems show ?thesis by simp
  next
    case (Inr s1)
    with i Cons.prems(1) loop_inv_iteration [of b s x e s1] have 1: "loop_inv b s1"
      by simp
    from i Inr Cons.prems(2) have 2: "snd (run b x es s1) = Inr s'"
      by (simp add: split_def Let_def)
    from iteration_watchdog [OF ok, of x e] i Inr assms
    have "filter (\<lambda>ev. ev = WatchdogUpdate) ev = [WatchdogUpdate]"
      by simp
    with Cons.IH [OF 1 2] i Inr show ?thesis
      by (simp add: split_def Let_def)
  qed
qed

lemma run_not_armed:
  assumes "loop_inv b s"
  shows "filter watchdog_enable (fst (run b x es s)) = []"
proof (rule filter_none)
  fix ev
  assume r: "ev \<in> set (fst (run b x es s))"
  show "\<not> watchdog_enable ev"
  proof (rule run_events [where I = "loop_inv b" and P = "\<lambda>ev. \<not> watchdog_enable ev",
        OF _ _ assms r])
    fix e s s'
    assume "loop_inv b s" and "snd (iteration b x e s) = Inr s'"
    then show "loop_inv b s'"
      by (rule loop_inv_iteration)
  next
    fix e s ev
    assume "loop_inv b s" and "ev \<in> set (fst (iteration b x e s))"
    then show "\<not> watchdog_enable ev"
      using iteration_kind [of b s ev x e] watchdog_enable_kind [of ev]
      by (auto simp: loop_inv_def)
  qed
qed

text \<open>An iteration runs to its end when the bytes received fit into the buffer.\<close>

lemma console_byte_total:
  assumes "length (input_buf s) = sizeof_input_buf" and "i_ptr s < sizeof_input_buf"
  shows "\<exists>ev s'. console_byte config c s = (ev, Inr s')
           \<and> length (input_buf s') = sizeof_input_buf \<and> i_ptr s' \<le> i_ptr s + 1"
proof (cases rule: console_byte_cases [where c = c and s = s])
  case skip
  with assms show ?thesis by (simp add: console_byte_skip)
next
  case backspace
  with assms show ?thesis by (auto simp: console_byte_backspace)
next
  case dispatch
  with assms show ?thesis
    by (simp add: console_byte_dispatch buf_write_def Let_def)
next
  case store
  with assms show ?thesis
    by (simp add: console_byte_store buf_write_def)
qed

lemma console_feed_total:
  assumes "length (input_buf s) = sizeof_input_buf"
    and "i_ptr s + length cs \<le> sizeof_input_buf"
  shows "\<exists>ev s'. console_feed config cs s = (ev, Inr s')"
  using assms
proof (induction cs arbitrary: s)
  case Nil
  then show ?case by simp
next
  case (Cons c cs)
  then have "i_ptr s < sizeof_input_buf"
    by simp
  from console_byte_total [OF Cons.prems(1) this, of config c] obtain ev1 s1 where
    b: "console_byte config c s = (ev1, Inr s1)"
    and l: "length (input_buf s1) = sizeof_input_buf" and i: "i_ptr s1 \<le> i_ptr s + 1"
    by blast
  from i Cons.prems(2) have "i_ptr s1 + length cs \<le> sizeof_input_buf"
    by simp
  from Cons.IH [OF l this] obtain ev2 s2 where "console_feed config cs s1 = (ev2, Inr s2)"
    by blast
  with b show ?case
    by simp
qed

lemma iteration_total:
  assumes "state_ok b s" and "length (input_buf s) = sizeof_input_buf"
    and "i_ptr s + length (rx e) \<le> sizeof_input_buf"
  shows "\<exists>t. snd (iteration b x e s) = Inr t"
proof -
  obtain s7 evs where t: "sched_tasks b x e s = (s7, evs)"
    by (cases "sched_tasks b x e s")
  with sched_tasks_state(1,2) [OF assms(1), of x e] assms(2,3)
  have "length (input_buf s7) = sizeof_input_buf" and "i_ptr s7 + length (rx e) \<le> sizeof_input_buf"
    by simp_all
  from console_feed_total [OF this, of "cfg e"] obtain ev s' where
    "console_feed (cfg e) (rx e) s7 = (ev, Inr s')"
    by blast
  with t show ?thesis
    by (simp add: iteration_def console_pump_def)
qed

text \<open>
  C7. With the watchdog compiled in: \<^verbatim>\<open>watchdog_enable\<close> is the last call of \<^verbatim>\<open>main\<close> before
  the loop and the only one in the whole run, no \<^verbatim>\<open>watchdog_update\<close> precedes it; every
  iteration that runs to its end has \<^verbatim>\<open>watchdog_update\<close> as its last event, once; a run of
  \<open>length es\<close> completed iterations refreshes the watchdog \<open>length es\<close> times; and an
  iteration does run to its end unless the console buffer overflows.
\<close>

theorem watchdog_armed_and_refreshed:
  assumes "build_ok b" and "WATCHDOG_ENABLED b"
  shows "(\<exists>pre. fst (boot b bi) = pre @ [WatchdogEnable (WATCHDOG_REBOOT_DELAY b)]
            \<and> (\<forall>ev \<in> set pre. ev \<noteq> WatchdogUpdate \<and> \<not> watchdog_enable ev))
       \<and> filter watchdog_enable (fst (main b x bi es))
           = [WatchdogEnable (WATCHDOG_REBOOT_DELAY b)]
       \<and> (snd (main b x bi es) = Inr s' \<longrightarrow>
            filter (\<lambda>ev. ev = WatchdogUpdate) (fst (main b x bi es))
              = replicate (length es) WatchdogUpdate)
       \<and> (state_ok b s \<and> snd (iteration b x e s) = Inr t \<longrightarrow>
            (\<exists>pre. fst (iteration b x e s) = pre @ [WatchdogUpdate]
               \<and> WatchdogUpdate \<notin> set pre))
       \<and> (state_ok b s \<and> length (input_buf s) = sizeof_input_buf
            \<and> i_ptr s + length (rx e) \<le> sizeof_input_buf \<longrightarrow>
            (\<exists>t. snd (iteration b x e s) = Inr t))"
proof -
  from boot_events [of b bi] assms(2) obtain pre where
    p: "fst (boot b bi) = pre @ [WatchdogEnable (WATCHDOG_REBOOT_DELAY b)]"
    and k: "\<forall>ev \<in> set pre. boot_event ev"
    by auto
  from k have k': "\<forall>ev \<in> set pre. ev \<noteq> WatchdogUpdate \<and> \<not> watchdog_enable ev"
    using boot_event_not_watchdog by blast
  then have f1: "filter watchdog_enable pre = []"
    and f2: "filter (\<lambda>ev. ev = WatchdogUpdate) pre = []"
    by (simp_all add: filter_empty_conv)
  have 1: "\<exists>pre. fst (boot b bi) = pre @ [WatchdogEnable (WATCHDOG_REBOOT_DELAY b)]
            \<and> (\<forall>ev \<in> set pre. ev \<noteq> WatchdogUpdate \<and> \<not> watchdog_enable ev)"
    using p k' by blast
  have 2: "filter watchdog_enable (fst (main b x bi es))
           = [WatchdogEnable (WATCHDOG_REBOOT_DELAY b)]"
    by (simp add: main_run p f1 run_not_armed [OF boot_inv [OF assms(1)]])
  have 3: "filter (\<lambda>ev. ev = WatchdogUpdate) (fst (main b x bi es))
              = replicate (length es) WatchdogUpdate" if "snd (main b x bi es) = Inr s'"
  proof -
    from that have "snd (run b x es (snd (boot b bi))) = Inr s'"
      by (simp add: main_run)
    from run_watchdog [OF assms(2) boot_inv [OF assms(1)] this] show ?thesis
      by (simp add: main_run p f2)
  qed
  have 4: "\<exists>pre. fst (iteration b x e s) = pre @ [WatchdogUpdate]
               \<and> WatchdogUpdate \<notin> set pre" if "state_ok b s \<and> snd (iteration b x e s) = Inr t"
    using that iteration_last [OF _ assms(2), of s x e t] by blast
  have 5: "\<exists>t. snd (iteration b x e s) = Inr t"
    if "state_ok b s \<and> length (input_buf s) = sizeof_input_buf
      \<and> i_ptr s + length (rx e) \<le> sizeof_input_buf"
    using that iteration_total [of b s e x] by blast
  from 1 2 3 4 5 show ?thesis
    by blast
qed

text \<open>The theorem of C7 on the example board, for a run of one iteration.\<close>

theorem watchdog_armed_and_refreshed_witness:
  "filter watchdog_enable
     (fst (main example_build example_extern example_boot_in [example_iter]))
     = [WatchdogEnable 15000]
   \<and> filter (\<lambda>ev. ev = WatchdogUpdate)
       (fst (main example_build example_extern example_boot_in [example_iter]))
     = [WatchdogUpdate]"
proof -
  have w: "WATCHDOG_ENABLED example_build"
    and d: "WATCHDOG_REBOOT_DELAY example_build = 15000"
    by (simp_all add: example_build_def)
  have r: "rx example_iter = []"
    by (simp add: example_iter_def)
  from watchdog_armed_and_refreshed [OF example_build_ok w, of example_boot_in example_extern
      "[example_iter]"] main_one_quiet_iteration [OF r] d
  show ?thesis
    by simp
qed

end
